theory Spec2Isabelle
  imports Complex_Main "HOL-Library.Word" "HOL-Library.AList" "HOL-Library.Multiset"
begin

unbundle bit_operations_syntax

section \<open>The Go standard library functions the sources call\<close>

text \<open>
  Go strings are byte sequences: \<open>len\<close> counts bytes and \<open>s[i:j]\<close> slices bytes, so a
  Go string is a \<^typ>\<open>char list\<close> here. Unsigned 64-bit values inside \<open>strconv\<close> and
  \<open>fmt\<close> are natural numbers below \<open>2 ^ 64\<close>, with the wrap-around of the machine
  arithmetic written out where the library relies on it.
\<close>

subsection \<open>Errors\<close>

datatype strconvErr = ErrSyntax | ErrRange

text \<open>
  Every error value the modelled functions can return. \<open>NumError fn num err\<close> is
  \<open>*strconv.NumError{Func, Num, Err}\<close>; the two \<open>TooLong\<close> errors are the
  \<open>fmt.Errorf\<close> values of \<open>context.go\<close> and carry the offending string.
\<close>

datatype error =
    errEmptyTracerStateString
  | errMalformedTracerStateString
  | errTraceIDTooLong string
  | errSpanIDTooLong string
  | NumError string string strconvErr
  | ErrInvalidCarrier
  | ErrSpanContextNotFound

subsection \<open>\<open>strconv.FormatUint(u, 16)\<close> and the verb \<open>%x\<close>\<close>

definition digits :: string where
  "digits = ''0123456789abcdefghijklmnopqrstuvwxyz''"

text \<open>
  \<open>formatBits\<close> for base 16: the low four bits select a digit, written in front of the
  digits produced so far, until the remaining value is below the base.
\<close>

function formatBits :: "nat \<Rightarrow> string \<Rightarrow> string" where
  "formatBits u a =
     (if u \<ge> 16 then formatBits (u div 16) (digits ! (u mod 16) # a)
      else digits ! u # a)"
  by pat_completeness auto
termination
  by (relation "measure (\<lambda>(u, a). u)") auto

declare formatBits.simps [simp del]

definition FormatUint16 :: "nat \<Rightarrow> string" where
  "FormatUint16 u = formatBits u []"

text \<open>\<open>%x\<close> applied to an unsigned integer prints the same digits.\<close>

definition fmt_x :: "nat \<Rightarrow> string" where
  "fmt_x u = formatBits u []"

text \<open>\<open>%016x\<close>: the digits of \<open>%x\<close>, padded on the left with zeros to width 16.\<close>

definition fmt_016x :: "nat \<Rightarrow> string" where
  "fmt_016x u = replicate (16 - length (fmt_x u)) (CHR ''0'') @ fmt_x u"

text \<open>
  \<open>%x\<close> applied to a signed \<open>int32\<close>: a negative value prints a minus sign and the
  digits of its magnitude.
\<close>

definition fmt_x_int32 :: "32 word \<Rightarrow> string" where
  "fmt_x_int32 w =
     (if sint w < 0 then CHR ''-'' # fmt_x (nat (- sint w)) else fmt_x (nat (sint w)))"

subsection \<open>\<open>strconv.ParseUint\<close>\<close>

text \<open>
  The value of one input byte as a digit: \<open>'0'..'9'\<close>, or a letter of either case
  (\<open>lower(c) = c | ('x' - 'X')\<close>) counted from ten.
\<close>

definition digitVal :: "char \<Rightarrow> nat option" where
  "digitVal c =
     (let b = (of_char c :: nat); l = b OR 32 in
      if 48 \<le> b \<and> b \<le> 57 then Some (b - 48)
      else if 97 \<le> l \<and> l \<le> 122 then Some (l - 97 + 10)
      else None)"

definition cutoff :: "nat \<Rightarrow> nat" where
  "cutoff base = (2 ^ 64 - 1) div base + 1"

text \<open>
  The digit loop of \<open>ParseUint\<close>. A byte that is no digit of the base is a syntax
  error with value 0; an overflow of 64 bits or of \<open>maxVal\<close> is a range error with value
  \<open>maxVal\<close>.
\<close>

fun parseLoop :: "nat \<Rightarrow> nat \<Rightarrow> nat \<Rightarrow> string \<Rightarrow> nat \<times> strconvErr option" where
  "parseLoop base maxVal n [] = (n, None)"
| "parseLoop base maxVal n (c # cs) =
     (case digitVal c of
        None \<Rightarrow> (0, Some ErrSyntax)
      | Some d \<Rightarrow>
          if d \<ge> base then (0, Some ErrSyntax)
          else if n \<ge> cutoff base then (maxVal, Some ErrRange)
          else
            let n' = (n * base) mod 2 ^ 64;
                n1 = (n' + d) mod 2 ^ 64
            in if n1 < n' \<or> n1 > maxVal then (maxVal, Some ErrRange)
               else parseLoop base maxVal n1 cs)"

text \<open>
  \<open>ParseUint(s, base, bitSize)\<close> for an explicit base between 2 and 36 and a bit size
  between 1 and 64, which is how the sources call it (base 16 with 64 bits, base 10 with
  8 bits). Base 0 with its prefixes and underscores is never requested.
\<close>

definition ParseUint :: "string \<Rightarrow> nat \<Rightarrow> nat \<Rightarrow> nat \<times> error option" where
  "ParseUint s base bitSize =
     (if s = [] then (0, Some (NumError ''ParseUint'' s ErrSyntax))
      else case parseLoop base (2 ^ bitSize - 1) 0 s of
             (n, None) \<Rightarrow> (n, None)
           | (n, Some e) \<Rightarrow> (n, Some (NumError ''ParseUint'' s e)))"

subsection \<open>\<open>strings.Split\<close> and \<open>strings.ToLower\<close>\<close>

text \<open>\<open>strings.Split(s, sep)\<close> for a separator of one byte; the empty string gives one empty part.\<close>

fun Split :: "string \<Rightarrow> char \<Rightarrow> string list" where
  "Split [] sep = [[]]"
| "Split (c # cs) sep =
     (if c = sep then [] # Split cs sep
      else case Split cs sep of p # ps \<Rightarrow> (c # p) # ps | [] \<Rightarrow> [[c]])"

text \<open>
  \<open>strings.ToLower\<close>. A string of ASCII bytes only is mapped byte by byte, \<open>'A'..'Z'\<close> to
  \<open>'a'..'z'\<close>. A string with a byte from 128 up goes through
  \<open>strings.Map(unicode.ToLower, s)\<close>, which decodes UTF-8 and consults the case tables of
  the \<open>unicode\<close> package (there \<open>U+0130\<close> becomes \<open>i\<close>, for one). Those tables are not
  among the sources, so that mapping is the parameter \<open>unicodeLower\<close>, and every statement
  about header names holds for whatever it does.
\<close>

definition toLowerByte :: "char \<Rightarrow> char" where
  "toLowerByte c =
     (let b = (of_char c :: nat) in if 65 \<le> b \<and> b \<le> 90 then char_of (b + 32) else c)"

definition isASCII :: "string \<Rightarrow> bool" where
  "isASCII s = list_all (\<lambda>c. (of_char c :: nat) < 128) s"

definition ToLower :: "(string \<Rightarrow> string) \<Rightarrow> string \<Rightarrow> string" where
  "ToLower unicodeLower s = (if isASCII s then map toLowerByte s else unicodeLower s)"

subsection \<open>\<open>float64\<close>\<close>

text \<open>
  A Go \<open>float64\<close> is a value of the IEEE 754 binary64 format. A finite value has a sign
  (\<open>True\<close> for minus), a significand \<open>m < 2\<^sup>5\<^sup>3\<close> and an exponent \<open>e\<close> with
  \<open>-1074 \<le> e \<le> 971\<close>, and stands for \<open>\<plusminus> m \<times> 2\<^sup>e\<close>; the significand is at least
  \<open>2\<^sup>5\<^sup>2\<close> unless \<open>e = -1074\<close> (zero and the subnormal numbers), so that every value has
  one representation. Both zeros are there (\<open>m = 0\<close> with either sign), the two infinities
  and not-a-number; the payload of a NaN is not kept, no operation of the program reads it.
\<close>

datatype float64 = Finite bool nat int | Infinity bool | NaN

fun isFloat64 :: "float64 \<Rightarrow> bool" where
  "isFloat64 (Finite s m e) =
     (m < 2 ^ 53 \<and> - 1074 \<le> e \<and> e \<le> 971 \<and> (2 ^ 52 \<le> m \<or> e = - 1074))"
| "isFloat64 (Infinity s) = True"
| "isFloat64 NaN = True"

fun isFinite :: "float64 \<Rightarrow> bool" where
  "isFinite (Finite s m e) = True"
| "isFinite (Infinity s) = False"
| "isFinite NaN = False"

definition sval :: "bool \<Rightarrow> nat \<Rightarrow> int" where
  "sval s m = (if s then - int m else int m)"

text \<open>The real number a finite value stands for.\<close>

fun valueOf :: "float64 \<Rightarrow> real option" where
  "valueOf (Finite s m e) = Some (of_int (sval s m) * 2 powi e)"
| "valueOf (Infinity s) = None"
| "valueOf NaN = None"

text \<open>The number of binary digits of a natural number (\<open>bits.Len64\<close>).\<close>

function bitLength :: "nat \<Rightarrow> nat" where
  "bitLength n = (if n = 0 then 0 else Suc (bitLength (n div 2)))"
  by pat_completeness auto
termination
  by (relation "measure (\<lambda>n. n)") auto

declare bitLength.simps [simp del]

text \<open>
  Rounding to nearest, ties to even, which is the rounding of every \<open>float64\<close> operation in
  Go. \<open>roundNearestEven s M E\<close> is the \<open>float64\<close> nearest to \<open>\<plusminus> M \<times> 2\<^sup>E\<close>: the exponent
  \<open>e\<close> of the result is the one that leaves 53 digits of \<open>M\<close>, but not below \<open>-1074\<close>;
  \<open>roundTo\<close> drops the \<open>e - E\<close> low digits of \<open>M\<close>, rounds up when they are more than
  half a unit, or exactly half and the kept part is odd, and gives an infinity when the
  rounded value needs an exponent above \<open>971\<close>.
\<close>

definition roundTo :: "bool \<Rightarrow> nat \<Rightarrow> int \<Rightarrow> int \<Rightarrow> float64" where
  "roundTo s M E e =
     (if e \<le> E then
        (if 971 < e then Infinity s else Finite s (M * 2 ^ nat (E - e)) e)
      else
        let k = nat (e - E);
            q = M div 2 ^ k;
            r = M mod 2 ^ k;
            q' = (if 2 ^ k < 2 * r \<or> (2 * r = 2 ^ k \<and> odd q) then q + 1 else q)
        in if q' = 2 ^ 53 then (if 971 < e + 1 then Infinity s else Finite s (2 ^ 52) (e + 1))
           else if 971 < e then Infinity s else Finite s q' e)"

definition roundNearestEven :: "bool \<Rightarrow> nat \<Rightarrow> int \<Rightarrow> float64" where
  "roundNearestEven s M E =
     (if M = 0 then Finite s 0 (- 1074)
      else roundTo s M E (max (E + int (bitLength M) - 53) (- 1074)))"

text \<open>
  \<open>x + y\<close>: the exact sum of two finite values, a multiple of \<open>2\<close> to the smaller exponent,
  is rounded; an exact sum of zero is \<open>+0\<close> unless both operands are negative. An infinity
  absorbs every finite value, and the sum of the two opposite infinities is NaN.
\<close>

fun fadd :: "float64 \<Rightarrow> float64 \<Rightarrow> float64" where
  "fadd NaN y = NaN"
| "fadd x NaN = NaN"
| "fadd (Infinity s1) (Infinity s2) = (if s1 = s2 then Infinity s1 else NaN)"
| "fadd (Infinity s1) (Finite s2 m2 e2) = Infinity s1"
| "fadd (Finite s1 m1 e1) (Infinity s2) = Infinity s2"
| "fadd (Finite s1 m1 e1) (Finite s2 m2 e2) =
     (let E = min e1 e2;
          S = sval s1 m1 * 2 ^ nat (e1 - E) + sval s2 m2 * 2 ^ nat (e2 - E)
      in if S = 0 then Finite (s1 \<and> s2) 0 (- 1074)
         else roundNearestEven (S < 0) (nat \<bar>S\<bar>) E)"

fun fneg :: "float64 \<Rightarrow> float64" where
  "fneg NaN = NaN"
| "fneg (Infinity s) = Infinity (\<not> s)"
| "fneg (Finite s m e) = Finite (\<not> s) m e"

text \<open>\<open>x - y\<close> is \<open>x + (-y)\<close>.\<close>

definition fsub :: "float64 \<Rightarrow> float64 \<Rightarrow> float64" where
  "fsub x y = fadd x (fneg y)"

text \<open>\<open>x < y\<close> and \<open>x <= y\<close>: both are false as soon as one side is NaN.\<close>

fun flt :: "float64 \<Rightarrow> float64 \<Rightarrow> bool" where
  "flt NaN y = False"
| "flt x NaN = False"
| "flt (Infinity s1) (Infinity s2) = (s1 \<and> \<not> s2)"
| "flt (Infinity s1) (Finite s2 m2 e2) = s1"
| "flt (Finite s1 m1 e1) (Infinity s2) = (\<not> s2)"
| "flt (Finite s1 m1 e1) (Finite s2 m2 e2) =
     (let E = min e1 e2
      in sval s1 m1 * 2 ^ nat (e1 - E) < sval s2 m2 * 2 ^ nat (e2 - E))"

fun fle :: "float64 \<Rightarrow> float64 \<Rightarrow> bool" where
  "fle NaN y = False"
| "fle x NaN = False"
| "fle (Infinity s1) (Infinity s2) = (s1 \<or> \<not> s2)"
| "fle (Infinity s1) (Finite s2 m2 e2) = s1"
| "fle (Finite s1 m1 e1) (Infinity s2) = (\<not> s2)"
| "fle (Finite s1 m1 e1) (Finite s2 m2 e2) =
     (let E = min e1 e2
      in sval s1 m1 * 2 ^ nat (e1 - E) \<le> sval s2 m2 * 2 ^ nat (e2 - E))"

text \<open>The \<open>float64\<close> of a natural number, to write the constants \<open>2\<close>, \<open>3\<close>, ... below.\<close>

definition f64 :: "nat \<Rightarrow> float64" where
  "f64 n = roundNearestEven False n 0"

section \<open>\<open>context.go\<close>: trace and span identifiers\<close>

record TraceID =
  High :: "64 word"
  Low :: "64 word"

type_synonym SpanID = "64 word"

definition zeroTraceID :: TraceID where
  "zeroTraceID = \<lparr>High = 0, Low = 0\<rparr>"

definition TraceID_String :: "TraceID \<Rightarrow> string" where
  "TraceID_String t =
     (if High t = 0 then fmt_x (unat (Low t))
      else fmt_x (unat (High t)) @ fmt_016x (unat (Low t)))"

definition TraceIDFromString :: "string \<Rightarrow> TraceID \<times> error option" where
  "TraceIDFromString s =
     (if length s > 32 then (zeroTraceID, Some (errTraceIDTooLong s))
      else if length s > 16 then
        (let hiLen = length s - 16 in
         case ParseUint (take hiLen s) 16 64 of
           (hi, Some e) \<Rightarrow> (zeroTraceID, Some e)
         | (hi, None) \<Rightarrow>
             (case ParseUint (drop hiLen s) 16 64 of
                (lo, Some e) \<Rightarrow> (zeroTraceID, Some e)
              | (lo, None) \<Rightarrow> (\<lparr>High = of_nat hi, Low = of_nat lo\<rparr>, None)))
      else
        (case ParseUint s 16 64 of
           (lo, Some e) \<Rightarrow> (zeroTraceID, Some e)
         | (lo, None) \<Rightarrow> (\<lparr>High = 0, Low = of_nat lo\<rparr>, None)))"

definition TraceID_IsValid :: "TraceID \<Rightarrow> bool" where
  "TraceID_IsValid t = (High t \<noteq> 0 \<or> Low t \<noteq> 0)"

definition SpanID_String :: "SpanID \<Rightarrow> string" where
  "SpanID_String s = fmt_x (unat s)"

definition SpanIDFromString :: "string \<Rightarrow> SpanID \<times> error option" where
  "SpanIDFromString s =
     (if length s > 16 then (0, Some (errSpanIDTooLong s))
      else case ParseUint s 16 64 of
             (v, Some e) \<Rightarrow> (0, Some e)
           | (v, None) \<Rightarrow> (of_nat v, None))"

section \<open>\<open>context.go\<close>: sampling state\<close>

type_synonym int32 = "32 word"
type_synonym byte = "8 word"

definition flagUnsampled :: int32 where "flagUnsampled = 0"
definition flagSampled :: int32 where "flagSampled = 1"
definition flagDebug :: int32 where "flagDebug = 2"
definition flagFirehose :: int32 where "flagFirehose = 8"

text \<open>The struct \<open>samplingState\<close>; its field \<open>_flags\<close> is an \<open>atomic.Int32\<close>.\<close>

record samplingState =
  atomic_flags :: int32

text \<open>The operations of \<open>atomic.Int32\<close> on that field, each one step.\<close>

definition Load :: "samplingState \<Rightarrow> int32" where
  "Load s = atomic_flags s"

definition Store :: "int32 \<Rightarrow> samplingState \<Rightarrow> samplingState" where
  "Store v s = s\<lparr>atomic_flags := v\<rparr>"

definition CAS :: "int32 \<Rightarrow> int32 \<Rightarrow> samplingState \<Rightarrow> bool \<times> samplingState" where
  "CAS old new s =
     (if atomic_flags s = old then (True, s\<lparr>atomic_flags := new\<rparr>) else (False, s))"

text \<open>
  The loop \<open>for !swapped { old := Load(); swapped = CAS(old, old|newFlag) }\<close>, run by one
  thread with no other writer between the load and the compare-and-swap.
\<close>

function setFlag_loop :: "bool \<Rightarrow> int32 \<Rightarrow> samplingState \<Rightarrow> samplingState" where
  "setFlag_loop swapped newFlag s =
     (if \<not> swapped then
        (let old = Load s;
             r = CAS old (old OR newFlag) s
         in setFlag_loop (fst r) newFlag (snd r))
      else s)"
  by pat_completeness auto
termination
  by (relation "measure (\<lambda>(swapped, newFlag, s). if swapped then 0 else 1)")
     (auto simp: CAS_def Load_def)

definition setFlag :: "int32 \<Rightarrow> samplingState \<Rightarrow> samplingState" where
  "setFlag newFlag s = setFlag_loop False newFlag s"

function resetFlag_loop :: "bool \<Rightarrow> int32 \<Rightarrow> samplingState \<Rightarrow> samplingState" where
  "resetFlag_loop swapped newFlag s =
     (if \<not> swapped then
        (let old = Load s;
             r = CAS old (old AND NOT newFlag) s
         in resetFlag_loop (fst r) newFlag (snd r))
      else s)"
  by pat_completeness auto
termination
  by (relation "measure (\<lambda>(swapped, newFlag, s). if swapped then 0 else 1)")
     (auto simp: CAS_def Load_def)

declare setFlag_loop.simps [simp del] resetFlag_loop.simps [simp del]

definition resetFlag :: "int32 \<Rightarrow> samplingState \<Rightarrow> samplingState" where
  "resetFlag newFlag s = resetFlag_loop False newFlag s"

definition setSampled :: "samplingState \<Rightarrow> samplingState" where
  "setSampled s = setFlag flagSampled s"

definition resetSampled :: "samplingState \<Rightarrow> samplingState" where
  "resetSampled s = resetFlag flagSampled s"

definition setDebugAndSampled :: "samplingState \<Rightarrow> samplingState" where
  "setDebugAndSampled s = setFlag (flagDebug OR flagSampled) s"

definition setFirehose :: "samplingState \<Rightarrow> samplingState" where
  "setFirehose s = setFlag flagFirehose s"

definition resetFlags :: "samplingState \<Rightarrow> samplingState" where
  "resetFlags s = Store flagUnsampled s"

definition setFlags :: "byte \<Rightarrow> samplingState \<Rightarrow> samplingState" where
  "setFlags fl s = Store (ucast fl) s"

definition flags :: "samplingState \<Rightarrow> byte" where
  "flags s = ucast (Load s)"

definition isSampled :: "samplingState \<Rightarrow> bool" where
  "isSampled s = (Load s AND flagSampled = flagSampled)"

definition isDebug :: "samplingState \<Rightarrow> bool" where
  "isDebug s = (Load s AND flagDebug = flagDebug)"

definition isFirehose :: "samplingState \<Rightarrow> bool" where
  "isFirehose s = (Load s AND flagFirehose = flagFirehose)"

section \<open>\<open>context.go\<close>: span contexts\<close>

text \<open>
  A \<open>SpanContext\<close> is a struct value that holds two references: the pointer
  \<open>*samplingState\<close>, shared by the spans of a trace, and the baggage map (a Go map is a
  reference to a table). Both kinds of object live in an explicit store, addressed by
  their position; \<open>None\<close> is \<open>nil\<close>. Allocation appends to the store.
\<close>

record heap =
  samplingStates :: "samplingState list"
  baggageMaps :: "(string \<rightharpoonup> string) list"

record SpanContext =
  traceID :: TraceID
  spanID :: SpanID
  parentID :: SpanID
  baggage :: "nat option"
  debugID :: string
  samplingState :: "nat option"

definition emptyContext :: SpanContext where
  "emptyContext =
     \<lparr>traceID = zeroTraceID, spanID = 0, parentID = 0, baggage = None, debugID = [],
      samplingState = None\<rparr>"

text \<open>
  Following the pointer \<open>c.samplingState\<close>. \<open>None\<close> is the run-time panic of a \<open>nil\<close>
  dereference (an address outside the store does not arise in Go and is treated alike).
\<close>

definition derefState :: "heap \<Rightarrow> nat option \<Rightarrow> samplingState option" where
  "derefState h p =
     (case p of
        None \<Rightarrow> None
      | Some a \<Rightarrow> if a < length (samplingStates h) then Some (samplingStates h ! a) else None)"

text \<open>The entries of a baggage reference; reading a \<open>nil\<close> map finds no entry.\<close>

definition derefBaggage :: "heap \<Rightarrow> nat option \<Rightarrow> (string \<rightharpoonup> string) option" where
  "derefBaggage h p =
     (case p of
        None \<Rightarrow> Some Map.empty
      | Some a \<Rightarrow> if a < length (baggageMaps h) then Some (baggageMaps h ! a) else None)"

definition IsSampled :: "heap \<Rightarrow> SpanContext \<Rightarrow> bool option" where
  "IsSampled h c = map_option isSampled (derefState h (samplingState c))"

definition IsDebug :: "heap \<Rightarrow> SpanContext \<Rightarrow> bool option" where
  "IsDebug h c = map_option isDebug (derefState h (samplingState c))"

definition IsFirehose :: "heap \<Rightarrow> SpanContext \<Rightarrow> bool option" where
  "IsFirehose h c = map_option isFirehose (derefState h (samplingState c))"

definition IsValid :: "SpanContext \<Rightarrow> bool" where
  "IsValid c = (TraceID_IsValid (traceID c) \<and> spanID c \<noteq> 0)"

text \<open>\<open>SpanContext.String\<close>; it reads the flags through the pointer.\<close>

definition SpanContext_String :: "heap \<Rightarrow> SpanContext \<Rightarrow> string option" where
  "SpanContext_String h c =
     (case derefState h (samplingState c) of
        None \<Rightarrow> None
      | Some st \<Rightarrow>
          Some
            (if High (traceID c) = 0 then
               fmt_x (unat (Low (traceID c))) @ '':'' @ fmt_x (unat (spanID c)) @ '':'' @
               fmt_x (unat (parentID c)) @ '':'' @ fmt_x_int32 (Load st)
             else
               fmt_x (unat (High (traceID c))) @ fmt_016x (unat (Low (traceID c))) @ '':'' @
               fmt_x (unat (spanID c)) @ '':'' @ fmt_x (unat (parentID c)) @ '':'' @
               fmt_x_int32 (Load st)))"

text \<open>
  \<open>ContextFromString\<close> returns the pair of Go results, context and error, and the store,
  which gains a sampling state exactly on success.
\<close>

definition ContextFromString :: "heap \<Rightarrow> string \<Rightarrow> (SpanContext \<times> error option) \<times> heap" where
  "ContextFromString h value =
     (if value = [] then ((emptyContext, Some errEmptyTracerStateString), h)
      else
        let parts = Split value (CHR '':'') in
        if length parts \<noteq> 4 then ((emptyContext, Some errMalformedTracerStateString), h)
        else
          case TraceIDFromString (parts ! 0) of
            (t, Some e) \<Rightarrow> ((emptyContext, Some e), h)
          | (t, None) \<Rightarrow>
              (case SpanIDFromString (parts ! 1) of
                 (sid, Some e) \<Rightarrow> ((emptyContext, Some e), h)
               | (sid, None) \<Rightarrow>
                   (case SpanIDFromString (parts ! 2) of
                      (pid, Some e) \<Rightarrow> ((emptyContext, Some e), h)
                    | (pid, None) \<Rightarrow>
                        (case ParseUint (parts ! 3) 10 8 of
                           (fl, Some e) \<Rightarrow> ((emptyContext, Some e), h)
                         | (fl, None) \<Rightarrow>
                             ((\<lparr>traceID = t, spanID = sid, parentID = pid, baggage = None,
                                debugID = [],
                                samplingState = Some (length (samplingStates h))\<rparr>, None),
                              h\<lparr>samplingStates :=
                                  samplingStates h @
                                  [setFlags (of_nat fl) \<lparr>atomic_flags = 0\<rparr>]\<rparr>)))))"

definition SpanContext_TraceID :: "SpanContext \<Rightarrow> TraceID" where
  "SpanContext_TraceID c = traceID c"

definition SpanContext_SpanID :: "SpanContext \<Rightarrow> SpanID" where
  "SpanContext_SpanID c = spanID c"

definition SpanContext_ParentID :: "SpanContext \<Rightarrow> SpanID" where
  "SpanContext_ParentID c = parentID c"

definition NewSpanContext ::
  "heap \<Rightarrow> TraceID \<Rightarrow> SpanID \<Rightarrow> SpanID \<Rightarrow> bool \<Rightarrow> nat option \<Rightarrow> SpanContext \<times> heap" where
  "NewSpanContext h tid sid pid sampled bag =
     (let st0 = \<lparr>atomic_flags = 0\<rparr>;
          st = (if sampled then setSampled st0 else st0)
      in (\<lparr>traceID = tid, spanID = sid, parentID = pid, baggage = bag, debugID = [],
           samplingState = Some (length (samplingStates h))\<rparr>,
          h\<lparr>samplingStates := samplingStates h @ [st]\<rparr>))"

text \<open>
  \<open>WithBaggageItem\<close> builds a new map: from the one entry when \<open>c.baggage\<close> is \<open>nil\<close>,
  otherwise from a copy of every entry of \<open>c.baggage\<close> followed by the new entry. The
  result is \<open>None\<close> only for a baggage reference outside the store, which Go never holds.
\<close>

definition WithBaggageItem ::
  "heap \<Rightarrow> SpanContext \<Rightarrow> string \<Rightarrow> string \<Rightarrow> (SpanContext \<times> heap) option" where
  "WithBaggageItem h c key value =
     (let newBaggage =
            (case baggage c of
               None \<Rightarrow> Some [key \<mapsto> value]
             | Some a \<Rightarrow>
                 if a < length (baggageMaps h)
                 then Some ((Map.empty ++ (baggageMaps h ! a))(key \<mapsto> value))
                 else None)
      in case newBaggage of
           None \<Rightarrow> None
         | Some m \<Rightarrow>
             Some
               (\<lparr>traceID = traceID c, spanID = spanID c, parentID = parentID c,
                 baggage = Some (length (baggageMaps h)), debugID = [],
                 samplingState = samplingState c\<rparr>,
                h\<lparr>baggageMaps := baggageMaps h @ [m]\<rparr>))"

definition isDebugIDContainerOnly :: "SpanContext \<Rightarrow> bool" where
  "isDebugIDContainerOnly c = (\<not> TraceID_IsValid (traceID c) \<and> debugID c \<noteq> [])"

section \<open>The Zipkin B3 header propagator\<close>

text \<open>
  The carrier argument has type \<open>interface{}\<close>: a value of any dynamic type. \<open>Inject\<close>
  asks only whether that type has the method \<open>Set\<close> of \<open>opentracing.TextMapWriter\<close>, and
  \<open>Extract\<close> whether it has the method \<open>ForeachKey\<close> of \<open>opentracing.TextMapReader\<close>. A
  carrier is therefore its contents together with the methods of its type, \<open>None\<close> for a
  method the type lacks. A reader is given by the pairs it hands to the handler, in order;
  \<open>ForeachKey\<close> stops at the first error of the handler and returns it, as the interface
  demands.
\<close>

record 'c carrier =
  method_Set :: "(string \<Rightarrow> string \<Rightarrow> 'c \<Rightarrow> 'c) option"
  method_ForeachKey :: "('c \<Rightarrow> (string \<times> string) list) option"
  contents :: 'c

fun ForeachKey ::
  "(string \<Rightarrow> string \<Rightarrow> 's \<Rightarrow> 's \<times> error option) \<Rightarrow> (string \<times> string) list \<Rightarrow> 's \<Rightarrow>
   's \<times> error option" where
  "ForeachKey handler [] st = (st, None)"
| "ForeachKey handler ((k, v) # kvs) st =
     (case handler k v st of
        (st', Some err) \<Rightarrow> (st', Some err)
      | (st', None) \<Rightarrow> ForeachKey handler kvs st')"

text \<open>
  An \<open>opentracing.TextMapCarrier\<close> is a \<open>map[string]string\<close> with both methods. The map is
  a list of pairs with distinct keys: \<open>Set\<close> writes \<open>c[key] = val\<close>, and \<open>ForeachKey\<close>
  visits the pairs in list order, which stands for the order the Go run time happens to
  pick (a statement about extraction therefore holds for every rearrangement of the list).
  \<open>opentracing.HTTPHeadersCarrier\<close> has both methods as well, with a \<open>Set\<close> and a
  \<open>ForeachKey\<close> of its own; it is another value of the record.
\<close>

definition TextMapCarrier_Set ::
  "string \<Rightarrow> string \<Rightarrow> (string \<times> string) list \<Rightarrow> (string \<times> string) list" where
  "TextMapCarrier_Set key val c = AList.update key val c"

definition TextMapCarrier :: "(string \<times> string) list \<Rightarrow> (string \<times> string) list carrier" where
  "TextMapCarrier m =
     \<lparr>method_Set = Some TextMapCarrier_Set, method_ForeachKey = Some (\<lambda>c. c), contents = m\<rparr>"

text \<open>
  \<open>Inject\<close> returns the error and the carrier after the writes; \<open>None\<close> is the panic of
  \<open>sc.IsSampled()\<close> on a context without sampling state.
\<close>

definition Inject ::
  "heap \<Rightarrow> SpanContext \<Rightarrow> 'c carrier \<Rightarrow> (error option \<times> 'c carrier) option" where
  "Inject h sc abstractCarrier =
     (case method_Set abstractCarrier of
        None \<Rightarrow> Some (Some ErrInvalidCarrier, abstractCarrier)
      | Some textMapWriter_Set \<Rightarrow>
          let m = contents abstractCarrier;
              m1 = textMapWriter_Set ''x-b3-traceid'' (TraceID_String (SpanContext_TraceID sc)) m;
              m2 = (if SpanContext_ParentID sc \<noteq> 0
                    then textMapWriter_Set ''x-b3-parentspanid''
                           (FormatUint16 (unat (SpanContext_ParentID sc))) m1
                    else m1);
              m3 = textMapWriter_Set ''x-b3-spanid''
                     (FormatUint16 (unat (SpanContext_SpanID sc))) m2
          in case IsSampled h sc of
               None \<Rightarrow> None
             | Some b \<Rightarrow>
                 Some (None,
                   abstractCarrier
                     \<lparr>contents := textMapWriter_Set ''x-b3-sampled'' (if b then ''1'' else ''0'') m3\<rparr>))"

text \<open>The four header names of the propagator, as \<open>Inject\<close> writes them.\<close>

definition b3keys :: "string list" where
  "b3keys = [''x-b3-traceid'', ''x-b3-parentspanid'', ''x-b3-spanid'', ''x-b3-sampled'']"

text \<open>A header with its name in lower case; \<open>Extract\<close> sees a header only in this form.\<close>

definition lowerKey :: "(string \<Rightarrow> string) \<Rightarrow> string \<times> string \<Rightarrow> string \<times> string" where
  "lowerKey unicodeLower kv = (ToLower unicodeLower (fst kv), snd kv)"

text \<open>
  The headers \<open>Inject\<close> writes for a context whose sampled flag is \<open>b\<close>, in the order of
  the writes: the parent header only for a parent id other than zero.
\<close>

definition injected ::
  "SpanContext \<Rightarrow> bool \<Rightarrow> (string \<times> string) list" where
  "injected sc b =
     [(''x-b3-traceid'', TraceID_String (traceID sc))] @
     (if parentID sc \<noteq> 0 then [(''x-b3-parentspanid'', FormatUint16 (unat (parentID sc)))] else []) @
     [(''x-b3-spanid'', FormatUint16 (unat (spanID sc))), (''x-b3-sampled'', if b then ''1'' else ''0'')]"

text \<open>The variables the closure of \<open>Extract\<close> assigns.\<close>

record b3vars =
  var_traceID :: TraceID
  var_spanID :: "64 word"
  var_parentID :: "64 word"
  var_sampled :: bool

definition b3init :: b3vars where
  "b3init = \<lparr>var_traceID = zeroTraceID, var_spanID = 0, var_parentID = 0, var_sampled = False\<rparr>"

definition b3handler ::
  "(string \<Rightarrow> string) \<Rightarrow> string \<Rightarrow> string \<Rightarrow> b3vars \<Rightarrow> b3vars \<times> error option" where
  "b3handler unicodeLower rawKey value vs =
     (let key = ToLower unicodeLower rawKey in
      if key = ''x-b3-traceid'' then
        (case TraceIDFromString value of (t, err) \<Rightarrow> (vs\<lparr>var_traceID := t\<rparr>, err))
      else if key = ''x-b3-parentspanid'' then
        (case ParseUint value 16 64 of (n, err) \<Rightarrow> (vs\<lparr>var_parentID := of_nat n\<rparr>, err))
      else if key = ''x-b3-spanid'' then
        (case ParseUint value 16 64 of (n, err) \<Rightarrow> (vs\<lparr>var_spanID := of_nat n\<rparr>, err))
      else if key = ''x-b3-sampled'' \<and> (value = ''1'' \<or> value = ''true'') then
        (vs\<lparr>var_sampled := True\<rparr>, None)
      else (vs, None))"

definition Extract ::
  "(string \<Rightarrow> string) \<Rightarrow> heap \<Rightarrow> 'c carrier \<Rightarrow> (SpanContext \<times> error option) \<times> heap" where
  "Extract unicodeLower h abstractCarrier =
     (case method_ForeachKey abstractCarrier of
        None \<Rightarrow> ((emptyContext, Some ErrInvalidCarrier), h)
      | Some pairs \<Rightarrow>
          (case ForeachKey (b3handler unicodeLower) (pairs (contents abstractCarrier)) b3init of
             (vs, Some err) \<Rightarrow> ((emptyContext, Some err), h)
           | (vs, None) \<Rightarrow>
               if \<not> TraceID_IsValid (var_traceID vs)
               then ((emptyContext, Some ErrSpanContextNotFound), h)
               else
                 (case NewSpanContext h (var_traceID vs) (var_spanID vs) (var_parentID vs)
                         (var_sampled vs) None of
                    (c, h') \<Rightarrow> ((c, None), h'))))"

section \<open>The remote throttler\<close>

text \<open>
  A credit balance is a \<open>float64\<close>: \<open>credits < minimumCredits\<close> is the comparison \<open>flt\<close>,
  \<open>credits - minimumCredits\<close> the rounded difference \<open>fsub\<close> and \<open>+=\<close> the rounded sum
  \<open>fadd\<close>. The constant \<open>minimumCredits\<close> is \<open>1.0\<close>, that is \<open>2\<^sup>5\<^sup>2 \<times> 2\<^sup>-\<^sup>5\<^sup>2\<close>.
\<close>

definition minimumCredits :: float64 where
  "minimumCredits = Finite False 4503599627370496 (- 52)"

record creditResponse =
  Operation :: string
  Credits :: float64

text \<open>
  One HTTP request to the agent: \<open>http://<hostPort>/credits?service=..&uuid=..&operation=..\<close>.
\<close>

record request =
  req_hostPort :: string
  req_service :: string
  req_uuid :: string
  req_operations :: "string list"

text \<open>
  \<open>utils.GetJSON\<close> is not among the sources and talks to the network, so it is a parameter:
  for a request it gives the decoded response and the error text, if any.
\<close>

type_synonym getJSON = "request \<Rightarrow> creditResponse list \<times> string option"

text \<open>
  The throttler with its credit-manager proxy. \<open>credits\<close> is the map from operation to
  balance, as a list of pairs. \<open>logged\<close> collects the messages given to \<open>logger.Error\<close>
  and \<open>sent\<close> the requests issued, both in order; the lock, the close channel and the
  wait group have no counterpart in a sequential model.
\<close>

record Throttler =
  hostPort :: string
  service :: string
  uuid :: string
  credits :: "(string \<times> float64) list"
  logged :: "string list"
  sent :: "request list"

definition FetchCredits ::
  "getJSON \<Rightarrow> Throttler \<Rightarrow> string \<Rightarrow> string \<Rightarrow> string list \<Rightarrow> creditResponse list \<times> Throttler" where
  "FetchCredits getJSON t u serviceName operation =
     (let req = \<lparr>req_hostPort = hostPort t, req_service = serviceName, req_uuid = u,
                 req_operations = operation\<rparr>;
          t1 = t\<lparr>sent := sent t @ [req]\<rparr>
      in case getJSON req of
           (resp, Some err) \<Rightarrow>
             (resp, t1\<lparr>logged := logged t1 @ [''Failed to receive credits from agent: '' @ err]\<rparr>)
         | (resp, None) \<Rightarrow> (resp, t1))"

text \<open>
  \<open>NewThrottler\<close>; of the options only the agent address matters here. The poller it
  starts is \<open>fetchCredits\<close> run at every tick.
\<close>

definition NewThrottler :: "string \<Rightarrow> string \<Rightarrow> Throttler" where
  "NewThrottler svc optHostPort =
     \<lparr>hostPort = optHostPort, service = svc, uuid = [], credits = [], logged = [], sent = []\<rparr>"

definition SetUUID :: "string \<Rightarrow> Throttler \<Rightarrow> Throttler" where
  "SetUUID u t = t\<lparr>uuid := u\<rparr>"

definition fetchCreditsHelper ::
  "getJSON \<Rightarrow> Throttler \<Rightarrow> string list \<Rightarrow> creditResponse list \<times> Throttler" where
  "fetchCreditsHelper getJSON t operations =
     (if uuid t = [] then
        ([], t\<lparr>logged := logged t @ [''Throttler uuid is not set, failed to fetch credits'']\<rparr>)
      else FetchCredits getJSON t (uuid t) (service t) operations)"

text \<open>Reading \<open>t.credits[operation]\<close>: a missing key reads as the zero value \<open>+0\<close>.\<close>

definition balance :: "Throttler \<Rightarrow> string \<Rightarrow> float64" where
  "balance t operation =
     (case map_of (credits t) operation of None \<Rightarrow> Finite False 0 (- 1074) | Some c \<Rightarrow> c)"

definition isThrottled :: "Throttler \<Rightarrow> string \<Rightarrow> bool \<times> Throttler" where
  "isThrottled t operation =
     (let c = balance t operation in
      if flt c minimumCredits then (True, t)
      else (False, t\<lparr>credits := AList.update operation (fsub c minimumCredits) (credits t)\<rparr>))"

definition IsThrottled :: "getJSON \<Rightarrow> Throttler \<Rightarrow> string \<Rightarrow> bool \<times> Throttler" where
  "IsThrottled getJSON t operation =
     (case map_of (credits t) operation of
        None \<Rightarrow>
          (case fetchCreditsHelper getJSON t [operation] of
             (cs, t1) \<Rightarrow>
               if length cs = 0 then (True, t1)
               else isThrottled
                      (t1\<lparr>credits := AList.update operation (Credits (cs ! 0)) (credits t1)\<rparr>)
                      operation)
      | Some c \<Rightarrow> isThrottled t operation)"

text \<open>The last loop of \<open>fetchCredits\<close>: \<open>t.credits[credit.Operation] += credit.Credits\<close>.\<close>

definition addCredit :: "Throttler \<Rightarrow> creditResponse \<Rightarrow> Throttler" where
  "addCredit t credit =
     t\<lparr>credits :=
         AList.update (Operation credit) (fadd (balance t (Operation credit)) (Credits credit))
           (credits t)\<rparr>"

definition fetchCredits :: "getJSON \<Rightarrow> Throttler \<Rightarrow> Throttler" where
  "fetchCredits getJSON t =
     (let operations = map fst (credits t) in
      case fetchCreditsHelper getJSON t operations of
        (newCredits, t1) \<Rightarrow> foldl addCredit t1 newCredits)"

text \<open>
  A balance that is a number: a value of the format other than NaN. \<open>numbers t\<close> says that
  every balance of the throttler is one.
\<close>

definition isNumber :: "float64 \<Rightarrow> bool" where
  "isNumber x = (isFloat64 x \<and> x \<noteq> NaN)"

definition numbers :: "Throttler \<Rightarrow> bool" where
  "numbers t = list_all (\<lambda>kb. isNumber (snd kb)) (credits t)"

section \<open>Tracer state strings, in the words of the specification\<close>

text \<open>
  What the specification calls a malformed value, written without reference to the parsing
  code: the value is empty, or it does not split at colons into exactly four parts, or the
  trace part is not between 1 and 32 hexadecimal digits, or the span or the parent part is
  not between 1 and 16 hexadecimal digits, or the flags part is not a decimal number
  that fits into 8 bits. A decimal digit is a byte \<open>'0'..'9'\<close>; a hexadecimal digit is one
  of those or a byte \<open>'a'..'f'\<close> or \<open>'A'..'F'\<close>.
\<close>

definition isDecDigit :: "char \<Rightarrow> bool" where
  "isDecDigit c = (let b = (of_char c :: nat) in 48 \<le> b \<and> b \<le> 57)"

definition isHexDigit :: "char \<Rightarrow> bool" where
  "isHexDigit c =
     (let b = (of_char c :: nat) in
      (48 \<le> b \<and> b \<le> 57) \<or> (97 \<le> b \<and> b \<le> 102) \<or> (65 \<le> b \<and> b \<le> 70))"

definition hexField :: "nat \<Rightarrow> string \<Rightarrow> bool" where
  "hexField n s = (s \<noteq> [] \<and> length s \<le> n \<and> list_all isHexDigit s)"

definition decValue :: "string \<Rightarrow> nat" where
  "decValue s = foldl (\<lambda>n c. 10 * n + (of_char c - 48)) 0 s"

definition flagsField :: "string \<Rightarrow> bool" where
  "flagsField s = (s \<noteq> [] \<and> list_all isDecDigit s \<and> decValue s \<le> 255)"

definition malformed :: "string \<Rightarrow> bool" where
  "malformed value =
     (value = [] \<or>
      length (Split value (CHR '':'')) \<noteq> 4 \<or>
      \<not> hexField 32 (Split value (CHR '':'') ! 0) \<or>
      \<not> hexField 16 (Split value (CHR '':'') ! 1) \<or>
      \<not> hexField 16 (Split value (CHR '':'') ! 2) \<or>
      \<not> flagsField (Split value (CHR '':'') ! 3))"

section \<open>Formatting and parsing numbers\<close>

lemma formatBits_acc: "formatBits u a = formatBits u [] @ a"
proof (induction u arbitrary: a rule: less_induct)
  case (less u)
  show ?case
  proof (cases "u \<ge> 16")
    case True
    then have lt: "u div 16 < u" by simp
    have "formatBits u a = formatBits (u div 16) (digits ! (u mod 16) # a)"
      using True by (simp add: formatBits.simps[of u a])
    also have "\<dots> = formatBits (u div 16) [] @ (digits ! (u mod 16) # a)"
      by (rule less.IH[OF lt])
    also have "\<dots> = (formatBits (u div 16) [] @ [digits ! (u mod 16)]) @ a"
      by simp
    also have "formatBits (u div 16) [] @ [digits ! (u mod 16)] = formatBits (u div 16) [digits ! (u mod 16)]"
      by (rule less.IH[OF lt, symmetric])
    also have "formatBits (u div 16) [digits ! (u mod 16)] = formatBits u []"
      using True by (simp add: formatBits.simps[of u "[]"])
    finally show ?thesis .
  next
    case False
    then show ?thesis by (simp add: formatBits.simps[of u])
  qed
qed

lemma fmt_x_small: "u < 16 \<Longrightarrow> fmt_x u = [digits ! u]"
  by (simp add: fmt_x_def formatBits.simps[of u])

lemma fmt_x_step: "u \<ge> 16 \<Longrightarrow> fmt_x u = fmt_x (u div 16) @ [digits ! (u mod 16)]"
  unfolding fmt_x_def
  by (subst formatBits.simps, subst formatBits_acc) simp

lemma fmt_x_nonempty: "fmt_x u \<noteq> []"
  by (cases "u \<ge> 16") (simp_all add: fmt_x_small fmt_x_step)

lemma hex_digits_all:
  "\<forall>d \<in> set [0..<16].
     digitVal (digits ! d) = Some d \<and> digits ! d \<noteq> CHR '':'' \<and>
     digits ! d \<in> set ''0123456789abcdef''"
  by (simp add: upt_rec digits_def digitVal_def)

lemma digitVal_digits: "d < 16 \<Longrightarrow> digitVal (digits ! d) = Some d"
  using hex_digits_all by simp

lemma digits_not_colon: "d < 16 \<Longrightarrow> digits ! d \<noteq> CHR '':''"
  using hex_digits_all by simp

lemma digits_hex: "d < 16 \<Longrightarrow> digits ! d \<in> set ''0123456789abcdef''"
  using hex_digits_all by simp

lemma set_fmt_x: "set (fmt_x u) \<subseteq> set ''0123456789abcdef''"
proof (induction u rule: less_induct)
  case (less u)
  show ?case
  proof (cases "u \<ge> 16")
    case True
    then have lt: "u div 16 < u" by simp
    have "digits ! (u mod 16) \<in> set ''0123456789abcdef''"
      by (rule digits_hex) simp
    then show ?thesis using less.IH[OF lt] True
      by (simp only: fmt_x_step set_append set_simps Un_subset_iff insert_subset empty_subsetI simp_thms)
  next
    case False
    then have "digits ! u \<in> set ''0123456789abcdef''"
      by (intro digits_hex) simp
    then show ?thesis using False
      by (simp only: fmt_x_small set_simps insert_subset empty_subsetI simp_thms not_le)
  qed
qed

lemma set_fmt_016x: "set (fmt_016x u) \<subseteq> set ''0123456789abcdef''"
proof -
  have "set (replicate (16 - length (fmt_x u)) CHR ''0'') \<subseteq> {CHR ''0''}"
    by (simp add: set_replicate_conv_if)
  moreover have "CHR ''0'' \<in> set ''0123456789abcdef''" by simp
  ultimately have "set (replicate (16 - length (fmt_x u)) CHR ''0'') \<subseteq> set ''0123456789abcdef''"
    by blast
  then show ?thesis using set_fmt_x[of u]
    unfolding fmt_016x_def set_append by (rule Un_least)
qed

lemma parseLoop_append:
  "parseLoop b m n (xs @ ys) =
     (case parseLoop b m n xs of (n', None) \<Rightarrow> parseLoop b m n' ys | (n', Some e) \<Rightarrow> (n', Some e))"
  by (induction xs arbitrary: n) (auto simp: Let_def split: option.splits)

lemma parseLoop_hex_digit:
  assumes "d < 16" and "n * 16 + d \<le> M" and "M < 2 ^ 64"
  shows "parseLoop 16 M n [digits ! d] = (n * 16 + d, None)"
proof -
  have c: "n < cutoff 16" using assms by (simp add: cutoff_def)
  show ?thesis using assms c by (simp add: digitVal_digits Let_def)
qed

lemma parseLoop_fmt_x:
  "n * 16 ^ length (fmt_x u) + u \<le> M \<Longrightarrow> M < 2 ^ 64 \<Longrightarrow>
   parseLoop 16 M n (fmt_x u) = (n * 16 ^ length (fmt_x u) + u, None)"
proof (induction u arbitrary: n rule: less_induct)
  case (less u)
  show ?case
  proof (cases "u \<ge> 16")
    case False
    then show ?thesis using less.prems parseLoop_hex_digit[of u n]
      by (simp add: fmt_x_small)
  next
    case True
    let ?k = "length (fmt_x (u div 16))"
    let ?m = "n * 16 ^ ?k + u div 16"
    have lt: "u div 16 < u" using True by simp
    have len: "length (fmt_x u) = Suc ?k" using True by (simp add: fmt_x_step)
    have bound: "n * 16 ^ Suc ?k + u \<le> M" using less.prems len by simp
    have u: "u = (u div 16) * 16 + u mod 16" by simp
    have eq: "?m * 16 + u mod 16 = n * 16 ^ Suc ?k + u"
      by (simp add: algebra_simps)
    have m: "?m * 16 + u mod 16 \<le> M" using bound eq by simp
    then have "?m \<le> M" by simp
    then have ih: "parseLoop 16 M n (fmt_x (u div 16)) = (?m, None)"
      using less.IH[OF lt, of n] less.prems(2) by simp
    have "parseLoop 16 M n (fmt_x u) = parseLoop 16 M ?m [digits ! (u mod 16)]"
      using True by (simp only: fmt_x_step parseLoop_append ih prod.case option.case)
    also have "\<dots> = (?m * 16 + u mod 16, None)"
      by (rule parseLoop_hex_digit) (use m less.prems(2) in simp_all)
    finally show ?thesis using eq len by simp
  qed
qed

lemma length_fmt_x: "0 < k \<Longrightarrow> u < 16 ^ k \<Longrightarrow> length (fmt_x u) \<le> k"
proof (induction u arbitrary: k rule: less_induct)
  case (less u)
  show ?case
  proof (cases "u \<ge> 16")
    case False
    then show ?thesis using less.prems by (simp add: fmt_x_small)
  next
    case True
    then have lt: "u div 16 < u" by simp
    obtain j where k: "k = Suc j" using less.prems by (cases k) auto
    have "j \<noteq> 0"
    proof
      assume "j = 0"
      then show False using True less.prems k by simp
    qed
    moreover have "u div 16 < 16 ^ j" using less.prems k
      by (simp add: less_mult_imp_div_less)
    ultimately have "length (fmt_x (u div 16)) \<le> j" using less.IH[OF lt, of j] by simp
    then show ?thesis using True k by (simp add: fmt_x_step)
  qed
qed

lemma length_fmt_x_64: "u < 2 ^ 64 \<Longrightarrow> length (fmt_x u) \<le> 16"
  using length_fmt_x[of 16 u] by simp

lemma ParseUint_fmt_x: "u < 2 ^ 64 \<Longrightarrow> ParseUint (fmt_x u) 16 64 = (u, None)"
  by (simp add: ParseUint_def fmt_x_nonempty parseLoop_fmt_x)

lemma parseLoop_zeros:
  "parseLoop 16 M 0 (replicate k (CHR ''0'') @ s) = parseLoop 16 M 0 s"
  by (induction k) (simp_all add: digitVal_def cutoff_def)

lemma length_fmt_016x: "u < 2 ^ 64 \<Longrightarrow> length (fmt_016x u) = 16"
  using length_fmt_x_64[of u] by (simp add: fmt_016x_def)

lemma ParseUint_fmt_016x: "u < 2 ^ 64 \<Longrightarrow> ParseUint (fmt_016x u) 16 64 = (u, None)"
  by (simp add: ParseUint_def fmt_016x_def fmt_x_nonempty parseLoop_zeros parseLoop_fmt_x)

lemma unat_lt_64: "unat (w :: 64 word) < 2 ^ 64"
  using unsigned_less[of w, where ?'a = nat] by simp

lemma TraceIDFromString_String: "TraceIDFromString (TraceID_String t) = (t, None)"
proof (cases "High t = 0")
  case True
  have "ParseUint (fmt_x (unat (Low t))) 16 64 = (unat (Low t), None)"
    by (rule ParseUint_fmt_x[OF unat_lt_64])
  then show ?thesis
    using True length_fmt_x_64[OF unat_lt_64, of "Low t"]
    by (simp add: TraceID_String_def TraceIDFromString_def)
next
  case False
  let ?h = "fmt_x (unat (High t))" and ?l = "fmt_016x (unat (Low t))"
  have l: "length ?l = 16" by (rule length_fmt_016x[OF unat_lt_64])
  have h: "length ?h \<le> 16" by (rule length_fmt_x_64[OF unat_lt_64])
  have h0: "0 < length ?h" by (simp add: fmt_x_nonempty)
  have ph: "ParseUint ?h 16 64 = (unat (High t), None)"
    by (rule ParseUint_fmt_x[OF unat_lt_64])
  have pl: "ParseUint ?l 16 64 = (unat (Low t), None)"
    by (rule ParseUint_fmt_016x[OF unat_lt_64])
  show ?thesis using False l h h0
    by (simp add: TraceID_String_def TraceIDFromString_def ph pl)
qed

section \<open>Trace identifiers\<close>

text \<open>
  Claim C2. For every trace identifier \<open>t\<close>, zero included, parsing the text of \<open>t\<close>
  returns \<open>t\<close> and no error. The text is the lowercase hexadecimal form of \<open>Low\<close> when
  \<open>High\<close> is zero; otherwise it is the hexadecimal form of \<open>High\<close> followed by the form
  of \<open>Low\<close> padded with zeros to exactly 16 characters (the form of \<open>Low\<close> never has
  more). Every character is one of \<open>0123456789abcdef\<close>.
\<close>

theorem TraceID_String_roundtrip:
  "TraceIDFromString (TraceID_String t) = (t, None) \<and>
   TraceID_String t =
     (if High t = 0 then fmt_x (unat (Low t))
      else fmt_x (unat (High t)) @
           replicate (16 - length (fmt_x (unat (Low t)))) (CHR ''0'') @ fmt_x (unat (Low t))) \<and>
   length (fmt_x (unat (Low t))) \<le> 16 \<and>
   set (TraceID_String t) \<subseteq> set ''0123456789abcdef''"
proof -
  have a: "TraceIDFromString (TraceID_String t) = (t, None)"
    by (rule TraceIDFromString_String)
  have b: "TraceID_String t =
     (if High t = 0 then fmt_x (unat (Low t))
      else fmt_x (unat (High t)) @
           replicate (16 - length (fmt_x (unat (Low t)))) (CHR ''0'') @ fmt_x (unat (Low t)))"
    by (simp add: TraceID_String_def fmt_016x_def)
  have c: "length (fmt_x (unat (Low t))) \<le> 16"
    by (rule length_fmt_x_64[OF unat_lt_64])
  have d: "set (TraceID_String t) \<subseteq> set ''0123456789abcdef''"
    using set_fmt_x[of "unat (Low t)"] set_fmt_x[of "unat (High t)"] set_fmt_016x[of "unat (Low t)"]
    unfolding TraceID_String_def by (cases "High t = 0") (simp_all only: set_append Un_subset_iff if_True if_False simp_thms)
  from a b c d show ?thesis by blast
qed

text \<open>The identifiers \<open>{High: 1, Low: 2}\<close> and zero, evaluated.\<close>

theorem TraceID_String_roundtrip_witness:
  "TraceID_String \<lparr>High = 1, Low = 2\<rparr> = ''10000000000000002'' \<and>
   TraceIDFromString ''10000000000000002'' = (\<lparr>High = 1, Low = 2\<rparr>, None) \<and>
   TraceID_String \<lparr>High = 0, Low = 0\<rparr> = ''0'' \<and>
   TraceIDFromString ''0'' = (\<lparr>High = 0, Low = 0\<rparr>, None)"
proof -
  have s1: "TraceID_String \<lparr>High = 1, Low = 2\<rparr> = ''10000000000000002''"
    by code_simp
  have s2: "TraceID_String \<lparr>High = 0, Low = 0\<rparr> = ''0''"
    by (simp add: TraceID_String_def fmt_x_def fmt_016x_def formatBits.simps digits_def)
  have r1: "TraceIDFromString (TraceID_String \<lparr>High = 1, Low = 2\<rparr>) = (\<lparr>High = 1, Low = 2\<rparr>, None)"
    using TraceID_String_roundtrip[of "\<lparr>High = 1, Low = 2\<rparr>"] by (rule conjunct1)
  have r2: "TraceIDFromString (TraceID_String \<lparr>High = 0, Low = 0\<rparr>) = (\<lparr>High = 0, Low = 0\<rparr>, None)"
    using TraceID_String_roundtrip[of "\<lparr>High = 0, Low = 0\<rparr>"] by (rule conjunct1)
  from r1 r2 show ?thesis unfolding s1 s2 using s1 s2 by blast
qed

section \<open>Sampling flags\<close>

lemma setFlag_eq: "setFlag f s = s\<lparr>atomic_flags := atomic_flags s OR f\<rparr>"
  unfolding setFlag_def
  by (subst setFlag_loop.simps, subst setFlag_loop.simps) (simp add: Load_def CAS_def)

lemma resetFlag_eq: "resetFlag f s = s\<lparr>atomic_flags := atomic_flags s AND NOT f\<rparr>"
  unfolding resetFlag_def
  by (subst resetFlag_loop.simps, subst resetFlag_loop.simps) (simp add: Load_def CAS_def)

text \<open>
  Claim C9. For every sampling state and every mask \<open>f\<close>, \<open>setFlag f\<close> terminates and
  leaves the state with its former flags or-ed with \<open>f\<close>: a bit is set afterwards exactly
  when it was set before or belongs to \<open>f\<close>. \<open>resetFlag f\<close> leaves the former flags
  with the bits of \<open>f\<close> cleared: a bit is set afterwards exactly when it was set before
  and does not belong to \<open>f\<close>. In particular \<open>resetSampled\<close> keeps the debug and the
  firehose bit and clears the sampled bit.
\<close>

theorem setFlag_resetFlag_bits:
  "Load (setFlag f s) = Load s OR f \<and>
   Load (resetFlag f s) = Load s AND NOT f \<and>
   (\<forall>n. bit (Load (setFlag f s)) n = (bit (Load s) n \<or> bit f n)) \<and>
   (\<forall>n. bit (Load (resetFlag f s)) n = (bit (Load s) n \<and> \<not> bit f n)) \<and>
   isDebug (resetSampled s) = isDebug s \<and>
   isFirehose (resetSampled s) = isFirehose s \<and>
   \<not> isSampled (resetSampled s)"
proof -
  have a: "Load (setFlag f s) = Load s OR f" by (simp add: setFlag_eq Load_def)
  have b: "Load (resetFlag f s) = Load s AND NOT f" by (simp add: resetFlag_eq Load_def)
  have c: "\<forall>n. bit (Load (setFlag f s)) n = (bit (Load s) n \<or> bit f n)"
    by (simp add: a bit_or_iff)
  have d: "\<forall>n. bit (Load (resetFlag f s)) n = (bit (Load s) n \<and> \<not> bit f n)"
    by (auto simp add: b bit_and_iff bit_not_iff dest: bit_imp_le_length)
  have r: "Load (resetSampled s) = Load s AND NOT 1"
    by (simp add: resetSampled_def resetFlag_eq Load_def flagSampled_def)
  have e: "isDebug (resetSampled s) = isDebug s"
    unfolding isDebug_def r flagDebug_def
    by (simp add: and.assoc)
  have g: "isFirehose (resetSampled s) = isFirehose s"
    unfolding isFirehose_def r flagFirehose_def
    by (simp add: and.assoc)
  have h: "\<not> isSampled (resetSampled s)"
    unfolding isSampled_def r flagSampled_def
    by (simp add: and.assoc)
  from a b c d e g h show ?thesis by blast
qed

text \<open>Setting the debug bit on \<open>sampled|firehose\<close>, and clearing the sampled bit of 11.\<close>

theorem setFlag_resetFlag_bits_witness:
  "Load (setFlag 2 \<lparr>atomic_flags = 9\<rparr>) = 11 \<and>
   Load (resetFlag 1 \<lparr>atomic_flags = 11\<rparr>) = 10"
proof -
  have "Load (setFlag 2 \<lparr>atomic_flags = 9\<rparr>) = Load \<lparr>atomic_flags = 9\<rparr> OR 2"
    using setFlag_resetFlag_bits[of 2 "\<lparr>atomic_flags = 9\<rparr>"] by (rule conjunct1)
  moreover have "Load (resetFlag 1 \<lparr>atomic_flags = 11\<rparr>) = Load \<lparr>atomic_flags = 11\<rparr> AND NOT 1"
    using setFlag_resetFlag_bits[of 1 "\<lparr>atomic_flags = 11\<rparr>"] by blast
  ultimately show ?thesis by (simp add: Load_def)
qed

section \<open>Floating-point arithmetic\<close>

text \<open>Evaluating the operations on numerals.\<close>

lemma bitLength_0: "bitLength 0 = 0"
  by (simp add: bitLength.simps)
lemma bitLength_1: "bitLength 1 = 1"
  by (simp add: bitLength.simps)
lemma bitLength_Suc_0: "bitLength (Suc 0) = 1"
  by (simp add: bitLength.simps)
lemma bitLength_Bit0: "bitLength (numeral (Num.Bit0 k)) = Suc (bitLength (numeral k))"
  by (subst bitLength.simps) simp
lemma bitLength_Bit1: "bitLength (numeral (Num.Bit1 k)) = Suc (bitLength (numeral k))"
  by (subst bitLength.simps) simp
lemmas f64_eval = bitLength_0 bitLength_1 bitLength_Suc_0 bitLength_Bit0 bitLength_Bit1
  roundNearestEven_def roundTo_def sval_def fsub_def f64_def minimumCredits_def Let_def

lemma bitLength_less: "n < 2 ^ bitLength n"
proof (induction n rule: bitLength.induct)
  case (1 n)
  show ?case
  proof (cases "n = 0")
    case True
    then show ?thesis by (simp add: bitLength_0)
  next
    case False
    then have "n div 2 < 2 ^ bitLength (n div 2)" using 1 by simp
    then have "n < 2 * 2 ^ bitLength (n div 2)" by linarith
    then show ?thesis using False by (subst bitLength.simps) simp
  qed
qed

lemma bitLength_ge: "0 < n \<Longrightarrow> 2 ^ (bitLength n - 1) \<le> n"
proof (induction n rule: bitLength.induct)
  case (1 n)
  show ?case
  proof (cases "n div 2 = 0")
    case True
    then have "n = 1" using 1(2) by linarith
    then show ?thesis by (simp add: bitLength_Suc_0)
  next
    case False
    then have ih: "2 ^ (bitLength (n div 2) - 1) \<le> n div 2" using 1 by simp
    have pos: "0 < bitLength (n div 2)" using False by (subst bitLength.simps) simp
    have "bitLength n = Suc (bitLength (n div 2))" using 1(2) by (subst bitLength.simps) simp
    then have "(2::nat) ^ (bitLength n - 1) = 2 * 2 ^ (bitLength (n div 2) - 1)"
      using pos by (cases "bitLength (n div 2)") simp_all
    then show ?thesis using ih by linarith
  qed
qed

lemma bitLength_le: "n < 2 ^ k \<Longrightarrow> bitLength n \<le> k"
proof (rule ccontr)
  assume a: "n < 2 ^ k" and b: "\<not> bitLength n \<le> k"
  then have pos: "0 < n" by (cases "n = 0") (simp_all add: bitLength_0)
  from b have "k \<le> bitLength n - 1" by simp
  then have "(2::nat) ^ k \<le> 2 ^ (bitLength n - 1)" by (rule power_increasing) simp
  with bitLength_ge[OF pos] a show False by linarith
qed

text \<open>
  Rounding leaves a value of the format as it is: if \<open>M\<close> is a multiple of \<open>2\<^sup>j\<close> below
  \<open>2\<^sup>5\<^sup>3\<^sup>+\<^sup>j\<close>, it has at most 53 digits after its low zeros, and nothing is lost.
\<close>

lemma pow2_shift:
  "e \<le> E \<Longrightarrow> (2::real) ^ nat (E - e) * 2 powi e = 2 powi E"
proof -
  assume le: "e \<le> E"
  have "(2::real) powi E = 2 powi ((E - e) + e)" by simp
  also have "\<dots> = 2 powi (E - e) * 2 powi e" by (rule power_int_add) simp
  also have "(2::real) powi (E - e) = 2 ^ nat (E - e)" using le by (simp add: power_int_def)
  finally show ?thesis by simp
qed

lemma roundNearestEven_exact:
  assumes M: "0 < M" and dvd: "2 ^ j dvd M" and less: "M < 2 ^ (53 + j)"
    and lo: "- 1074 \<le> E" and hi: "E + int j \<le> 971"
  shows "\<exists>m' e'. roundNearestEven s M E = Finite s m' e' \<and>
           real m' * 2 powi e' = real M * 2 powi E"
proof -
  let ?n = "bitLength M"
  let ?e = "max (E + int ?n - 53) (- 1074)"
  have n: "?n \<le> 53 + j" using less by (rule bitLength_le)
  have e971: "?e \<le> 971" using n hi by simp
  have r: "roundNearestEven s M E = roundTo s M E ?e"
    using M by (simp add: roundNearestEven_def)
  show ?thesis
  proof (cases "?e \<le> E")
    case True
    then have "roundTo s M E ?e = Finite s (M * 2 ^ nat (E - ?e)) ?e"
      using e971 by (simp add: roundTo_def)
    moreover have "real (M * 2 ^ nat (E - ?e)) * 2 powi ?e = real M * 2 powi E"
      using pow2_shift[OF True] by (simp add: mult.assoc)
    ultimately show ?thesis using r by simp
  next
    case False
    then have lt: "E < ?e" by (simp only: not_le)
    have n53i: "53 < int ?n" using lt lo by (simp add: max_def split: if_splits)
    define k where "k = ?n - 53"
    have nk: "?n = 53 + k" using n53i by (simp add: k_def)
    have e: "?e = E + int k" using n53i lo by (simp add: max_def k_def)
    have kj: "k \<le> j" using nk n by simp
    have kpos: "0 < k" using n53i by (simp add: k_def)
    have "(2::nat) ^ k dvd 2 ^ j" using kj by (rule le_imp_power_dvd)
    then have kd: "2 ^ k dvd M" using dvd by (rule dvd_trans)
    then have r0: "M mod 2 ^ k = 0" by simp
    have Mq: "M = (M div 2 ^ k) * 2 ^ k" using kd by simp
    have "M < 2 ^ ?n" by (rule bitLength_less)
    then have "M < 2 ^ 53 * 2 ^ k" by (simp add: nk power_add)
    then have q: "M div 2 ^ k < 2 ^ 53"
      by (simp add: less_mult_imp_div_less)
    have e971': "E + int k \<le> 971" using e971 e by simp
    have "roundTo s M E (E + int k) = Finite s (M div 2 ^ k) (E + int k)"
      using e971' r0 q kpos by (simp add: roundTo_def Let_def)
    moreover have "real (M div 2 ^ k) * 2 powi (E + int k) = real M * 2 powi E"
    proof -
      have "real M = real (M div 2 ^ k) * 2 ^ k"
        using Mq by (metis of_nat_mult of_nat_numeral of_nat_power)
      moreover have "(2::real) ^ k * 2 powi E = 2 powi (E + int k)"
        using pow2_shift[of E "E + int k"] by simp
      ultimately show ?thesis by (simp add: mult.assoc)
    qed
    ultimately show ?thesis using r e by simp
  qed
qed


text \<open>
  For a balance \<open>b\<close> with \<open>1 \<le> b \<le> 2\<^sup>5\<^sup>3\<close> the difference \<open>b - 1.0\<close> is exact.
\<close>

lemma sval_False: "sval False m = int m"
  by (simp add: sval_def)

lemma fsub_minimumCredits_exact:
  assumes v: "isFloat64 b" and ge: "fle minimumCredits b"
    and le: "fle b (Finite False 4503599627370496 1)"
  shows "\<exists>x. valueOf b = Some x \<and> valueOf (fsub b minimumCredits) = Some (x - 1)"
proof -
  obtain s m e where b: "b = Finite s m e"
    using ge le by (cases b) (auto simp: minimumCredits_def)
  have m53: "m < 2 ^ 53" and elo: "- 1074 \<le> e" and norm: "2 ^ 52 \<le> m \<or> e = - 1074"
    using v b by simp_all
  have ge': "2 ^ 52 * 2 ^ nat (- 52 - min (- 52) e) \<le> sval s m * 2 ^ nat (e - min (- 52) e)"
    using ge by (simp add: minimumCredits_def b Let_def sval_False)
  have s: "\<not> s"
  proof
    assume "s"
    then have "sval s m * 2 ^ nat (e - min (- 52) e) \<le> 0"
      by (simp add: sval_def mult_le_0_iff)
    moreover have "(0::int) < 2 ^ 52 * 2 ^ nat (- 52 - min (- 52) e)" by simp
    ultimately show False using ge' by linarith
  qed
  then have sv: "sval s m = int m" by (simp add: sval_def)
  have e52: "- 52 \<le> e"
  proof (rule ccontr)
    assume "\<not> - 52 \<le> e"
    then have lt: "e < - 52" by simp
    define p where "p = (2::int) ^ nat (- 52 - e)"
    have "(2::int) ^ 52 * p \<le> int m" using ge' sv lt by (simp add: min_def p_def)
    moreover have "(2::int) ^ 1 \<le> 2 ^ nat (- 52 - e)"
      by (rule power_increasing) (use lt in simp_all)
    then have "2 \<le> p" by (simp add: p_def)
    ultimately show False using m53 by simp
  qed
  then have m52: "2 ^ 52 \<le> m" using norm by auto
  have ge2: "(2::nat) ^ 52 \<le> m * 2 ^ nat (e + 52)"
  proof -
    have mn: "min (- 52) e = - 52" using e52 by simp
    have "(2::int) ^ 52 * 2 ^ nat (- 52 - (- 52)) \<le> int m * 2 ^ nat (e - (- 52))"
      using ge' unfolding mn sv .
    then have "int (2 ^ 52) \<le> int (m * 2 ^ nat (e + 52))" by simp
    then show ?thesis by (simp only: of_nat_le_iff)
  qed
  have le': "int m * 2 ^ nat (e - min e 1) \<le> 2 ^ 52 * 2 ^ nat (1 - min e 1)"
    using le sv by (simp add: b Let_def sval_False)
  have e1: "e \<le> 1"
  proof (rule ccontr)
    assume "\<not> e \<le> 1"
    then have gt: "1 < e" by simp
    define p where "p = (2::int) ^ nat (e - 1)"
    have a: "int m * p \<le> 2 ^ 52" using le' gt by (simp add: min_def p_def)
    have "(2::int) ^ 1 \<le> 2 ^ nat (e - 1)"
      by (rule power_increasing) (use gt in simp_all)
    then have "2 \<le> p" by (simp add: p_def)
    then have "int m * 2 \<le> int m * p" by (rule mult_left_mono) simp
    then have "int m * 2 \<le> 2 ^ 52" using a by (rule order_trans)
    then show False using m52 by simp
  qed
  have le2: "m \<le> 2 ^ 52 * 2 ^ nat (1 - e)"
  proof -
    have mn: "min e 1 = e" using e1 by simp
    have "int m * 2 ^ nat (e - e) \<le> 2 ^ 52 * 2 ^ nat (1 - e)"
      using le' unfolding mn .
    then have "int m \<le> int (2 ^ 52 * 2 ^ nat (1 - e))" by simp
    then show ?thesis by (simp only: of_nat_le_iff)
  qed
  let ?P = "m * 2 ^ nat (e + 52)"
  let ?S = "int m * 2 ^ nat (e + 52) - 2 ^ 52"
  have Sint: "?S = int ?P - int (2 ^ 52)" by simp
  have S0: "0 \<le> ?S" unfolding Sint using ge2 by (simp only: diff_ge_0_iff_ge of_nat_le_iff)
  have natS: "nat ?S = ?P - 2 ^ 52"
    unfolding Sint using ge2 by (simp only: nat_minus_as_int[symmetric] nat_int)
  have x: "valueOf b = Some (real m * 2 powi e)" using sv by (simp add: b)
  have sh: "(2::real) ^ nat (e + 52) * 2 powi (- 52) = 2 powi e"
    using pow2_shift[of "- 52" e] e52 by simp
  have one: "(2::real) ^ 52 * 2 powi (- 52) = 1"
    using pow2_shift[of "- 52" 0] by simp
  have f: "fsub b minimumCredits =
      (if ?S = 0 then Finite False 0 (- 1074) else roundNearestEven (?S < 0) (nat \<bar>?S\<bar>) (- 52))"
    using e52 sv s by (simp add: fsub_def minimumCredits_def b Let_def min_def sval_def)
  show ?thesis
  proof (cases "?S = 0")
    case True
    then have "int ?P = int (2 ^ 52)" unfolding Sint by simp
    then have "?P = 2 ^ 52" by (simp only: of_nat_eq_iff)
    then have "real ?P = real (2 ^ 52)" by simp
    then have rP: "real m * 2 ^ nat (e + 52) = 2 ^ 52" by simp
    have "real m * 2 powi e = real m * 2 ^ nat (e + 52) * 2 powi (- 52)"
      using sh by (simp add: mult.assoc)
    also have "\<dots> = 1" unfolding rP using one .
    finally have "real m * 2 powi e = 1" .
    then show ?thesis using x f True by (simp add: sval_False)
  next
    case False
    then have Spos: "0 < nat ?S" using S0 by simp
    define j where "j = (if e \<le> 0 then nat (e + 52) else 52)"
    have j1: "j \<le> nat (e + 52)" using e52 by (auto simp: j_def)
    have j2: "j \<le> 52" using e52 by (auto simp: j_def)
    have "(2::nat) ^ j dvd 2 ^ nat (e + 52)" using j1 by (rule le_imp_power_dvd)
    then have d1: "2 ^ j dvd ?P" by simp
    have d2: "(2::nat) ^ j dvd 2 ^ 52" using j2 by (rule le_imp_power_dvd)
    have dvd: "2 ^ j dvd nat ?S" unfolding natS using d1 d2 by (rule dvd_diff_nat)
    have less: "nat ?S < 2 ^ (53 + j)"
    proof (cases "e \<le> 0")
      case True
      then have "j = nat (e + 52)" by (simp add: j_def)
      then have "?P < 2 ^ 53 * 2 ^ j" using m53 by simp
      then show ?thesis using natS by (simp add: power_add)
    next
      case False
      then have e: "e = 1" using e1 by simp
      then have "m \<le> 2 ^ 52" using le2 by simp
      then have "?P \<le> 2 ^ 52 * 2 ^ 53" using e by simp
      then have "?P - 2 ^ 52 < 2 ^ 52 * 2 ^ 53" by simp
      moreover have "j = 52" using False by (simp add: j_def)
      ultimately show ?thesis using natS by (simp add: power_add)
    qed
    have hi: "- 52 + int j \<le> 971" using j2 by simp
    from roundNearestEven_exact[OF Spos dvd less _ hi, of False]
    obtain m' e' where r: "roundNearestEven False (nat ?S) (- 52) = Finite False m' e'"
      and val: "real m' * 2 powi e' = real (nat ?S) * 2 powi (- 52)"
      by auto
    have "real (nat ?S) = real m * 2 ^ nat (e + 52) - 2 ^ 52"
      unfolding natS using ge2 by (simp add: of_nat_diff)
    then have "real (nat ?S) * 2 powi (- 52) = real m * 2 powi e - 1"
      using sh one by (simp add: algebra_simps)
    then have "valueOf (Finite False m' e') = Some (real m * 2 powi e - 1)"
      using val by (simp add: sval_def)
    moreover have "fsub b minimumCredits = Finite False m' e'"
      using f False S0 r by simp
    ultimately show ?thesis using x by simp
  qed
qed

text \<open>Comparisons of numbers, and operations that yield no NaN.\<close>

lemma flt_not_fle: "x \<noteq> NaN \<Longrightarrow> y \<noteq> NaN \<Longrightarrow> flt x y = (\<not> fle y x)"
  by (cases x; cases y) (auto simp: Let_def min.commute)

lemma roundNearestEven_not_NaN: "roundNearestEven s M E \<noteq> NaN"
  by (simp add: roundNearestEven_def roundTo_def Let_def)

lemma fadd_Finite_not_NaN: "x \<noteq> NaN \<Longrightarrow> fadd x (Finite s m e) \<noteq> NaN"
  by (cases x) (simp_all add: Let_def roundNearestEven_not_NaN)

lemma fadd_zero_not_NaN: "y \<noteq> NaN \<Longrightarrow> fadd (Finite s m e) y \<noteq> NaN"
  by (cases y) (simp_all add: Let_def roundNearestEven_not_NaN)

lemma fsub_minimumCredits_not_NaN: "x \<noteq> NaN \<Longrightarrow> fsub x minimumCredits \<noteq> NaN"
  by (simp add: fsub_def minimumCredits_def fadd_Finite_not_NaN)

text \<open>
  Some facts of binary64 arithmetic, as the operations above give them: ten times \<open>0.1\<close>
  added up is \<open>0.9999999999999999\<close>, below \<open>1.0\<close>; \<open>2\<^sup>5\<^sup>4 - 1.0\<close> is \<open>2\<^sup>5\<^sup>4\<close> and
  \<open>2\<^sup>5\<^sup>3 + 1.0\<close> is \<open>2\<^sup>5\<^sup>3\<close>; the largest finite value added to itself is \<open>+Inf\<close>.
\<close>

lemma ten_tenths_below_one:
  "foldl fadd (Finite False 0 (- 1074))
     (replicate (Suc (Suc (Suc (Suc (Suc (Suc (Suc (Suc (Suc (Suc 0))))))))))
        (Finite False 7205759403792794 (- 56))) =
     Finite False 9007199254740991 (- 53) \<and>
   flt (Finite False 9007199254740991 (- 53)) minimumCredits"
  by (simp add: f64_eval)

lemma large_minus_one:
  "fsub (Finite False 4503599627370496 2) minimumCredits = Finite False 4503599627370496 2 \<and>
   fadd (Finite False 4503599627370496 1) minimumCredits = Finite False 4503599627370496 1 \<and>
   fadd (Finite False 9007199254740991 971) (Finite False 9007199254740991 971) = Infinity False"
  by (simp add: f64_eval)

text \<open>The operations stay within the format.\<close>

lemma isFloat64_roundNearestEven:
  assumes lo: "- 1074 \<le> E"
  shows "isFloat64 (roundNearestEven s M E)"
proof (cases "M = 0")
  case True
  then show ?thesis by (simp add: roundNearestEven_def)
next
  case False
  then have M: "0 < M" by simp
  define n where "n = bitLength M"
  define e where "e = max (E + int n - 53) (- 1074)"
  have r: "roundNearestEven s M E = roundTo s M E e"
    using False by (simp add: roundNearestEven_def e_def n_def)
  have up: "M < 2 ^ n" unfolding n_def by (rule bitLength_less)
  have dn: "2 ^ (n - 1) \<le> M" unfolding n_def using M by (rule bitLength_ge)
  have npos: "0 < n" using up M by (cases n) simp_all
  have elo: "- 1074 \<le> e" by (simp add: e_def)
  have ege: "E + int n - 53 \<le> e" by (simp add: e_def)
  have ecases: "e = E + int n - 53 \<or> e = - 1074" by (auto simp: e_def max_def)
  show ?thesis
  proof (cases "e \<le> E")
    case True
    define d where "d = nat (E - e)"
    have d: "n + d \<le> 53" using True ege by (simp add: d_def)
    have "M * 2 ^ d < 2 ^ n * 2 ^ d" using up by simp
    also have "\<dots> = 2 ^ (n + d)" by (simp add: power_add)
    also have "\<dots> \<le> 2 ^ 53" using d by (rule power_increasing) simp
    finally have m53: "M * 2 ^ d < 2 ^ 53" .
    have nrm: "2 ^ 52 \<le> M * 2 ^ d \<or> e = - 1074"
    proof (cases "e = - 1074")
      case True
      then show ?thesis by simp
    next
      case False
      then have "e = E + int n - 53" using ecases by simp
      then have nd: "n - 1 + d = 52" using True npos by (simp add: d_def)
      have "(2::nat) ^ 52 = 2 ^ (n - 1) * 2 ^ d" unfolding nd[symmetric] by (simp add: power_add)
      also have "\<dots> \<le> M * 2 ^ d" using dn by simp
      finally show ?thesis by simp
    qed
    have "roundTo s M E e = (if 971 < e then Infinity s else Finite s (M * 2 ^ d) e)"
      using True by (simp add: roundTo_def d_def)
    then show ?thesis
      unfolding r using m53 nrm elo by simp
  next
    case False
    then have lt: "E < e" by (simp only: not_le)
    then have en: "e = E + int n - 53" using ecases lo by auto
    define k where "k = nat (e - E)"
    have kpos: "0 < k" using lt by (simp add: k_def)
    have nk: "n = 53 + k" using en lt by (simp add: k_def)
    have "M < 2 ^ 53 * 2 ^ k" using up by (simp add: nk power_add)
    then have q: "M div 2 ^ k < 2 ^ 53" by (simp add: less_mult_imp_div_less)
    have "(2::nat) ^ 52 * 2 ^ k \<le> M" using dn by (simp add: nk power_add)
    then have q52: "2 ^ 52 \<le> M div 2 ^ k"
      by (simp add: less_eq_div_iff_mult_less_eq)
    define q' where "q' = (if 2 ^ k < 2 * (M mod 2 ^ k) \<or>
        (2 * (M mod 2 ^ k) = 2 ^ k \<and> odd (M div 2 ^ k)) then M div 2 ^ k + 1 else M div 2 ^ k)"
    have q'1: "2 ^ 52 \<le> q'" using q52 by (simp add: q'_def)
    have q'2: "q' \<le> 2 ^ 53" using q by (simp add: q'_def)
    have "roundTo s M E e =
        (if q' = 2 ^ 53 then (if 971 < e + 1 then Infinity s else Finite s (2 ^ 52) (e + 1))
         else if 971 < e then Infinity s else Finite s q' e)"
      using False by (simp add: roundTo_def Let_def k_def q'_def)
    then show ?thesis
      unfolding r using q'1 q'2 elo by auto
  qed
qed

lemma isFloat64_fadd: "isFloat64 x \<Longrightarrow> isFloat64 y \<Longrightarrow> isFloat64 (fadd x y)"
  by (cases x; cases y) (simp_all add: Let_def isFloat64_roundNearestEven)

lemma isFloat64_fsub_minimumCredits: "isFloat64 x \<Longrightarrow> isFloat64 (fsub x minimumCredits)"
proof -
  assume x: "isFloat64 x"
  have "isFloat64 (fneg minimumCredits)" by (simp add: minimumCredits_def)
  then show ?thesis unfolding fsub_def using x by (intro isFloat64_fadd)
qed

section \<open>The throttler\<close>

lemma fetchCreditsHelper_no_uuid:
  "uuid t = [] \<Longrightarrow>
   fetchCreditsHelper getJSON t operations =
     ([], t\<lparr>logged := logged t @ [''Throttler uuid is not set, failed to fetch credits'']\<rparr>)"
  by (simp add: fetchCreditsHelper_def)

lemma fetchCreditsHelper_frame:
  "credits (snd (fetchCreditsHelper getJSON t operations)) = credits t \<and>
   uuid (snd (fetchCreditsHelper getJSON t operations)) = uuid t \<and>
   service (snd (fetchCreditsHelper getJSON t operations)) = service t \<and>
   hostPort (snd (fetchCreditsHelper getJSON t operations)) = hostPort t"
  by (simp add: fetchCreditsHelper_def FetchCredits_def Let_def split: prod.splits option.splits)

lemma fetchCreditsHelper_sent:
  "uuid t \<noteq> [] \<Longrightarrow>
   sent (snd (fetchCreditsHelper getJSON t operations)) =
     sent t @ [\<lparr>req_hostPort = hostPort t, req_service = service t, req_uuid = uuid t,
               req_operations = operations\<rparr>]"
  by (simp add: fetchCreditsHelper_def FetchCredits_def Let_def split: prod.splits option.splits)

lemma fetchCreditsHelper_result:
  "uuid t \<noteq> [] \<Longrightarrow>
   fst (fetchCreditsHelper getJSON t operations) =
     fst (getJSON \<lparr>req_hostPort = hostPort t, req_service = service t, req_uuid = uuid t,
               req_operations = operations\<rparr>)"
  by (simp add: fetchCreditsHelper_def FetchCredits_def Let_def split: prod.splits option.splits)

lemma isThrottled_frame:
  "uuid (snd (isThrottled t operation)) = uuid t \<and>
   sent (snd (isThrottled t operation)) = sent t \<and>
   logged (snd (isThrottled t operation)) = logged t"
  by (simp add: isThrottled_def Let_def)

lemma balance_update:
  "balance (t\<lparr>credits := AList.update k v (credits t)\<rparr>) operation =
     (if operation = k then v else balance t operation)"
  by (simp add: balance_def update_conv')

lemma balance_addCredit:
  "balance (addCredit t c) operation =
     (if Operation c = operation then fadd (balance t operation) (Credits c)
      else balance t operation)"
  by (auto simp: addCredit_def balance_update)

lemma balance_foldl_addCredit:
  "balance (foldl addCredit t cs) operation =
     foldl fadd (balance t operation) (map Credits (filter (\<lambda>c. Operation c = operation) cs))"
  by (induction cs arbitrary: t) (auto simp: balance_addCredit)

lemma dom_addCredit:
  "dom (map_of (credits (addCredit t c))) = insert (Operation c) (dom (map_of (credits t)))"
  by (simp add: addCredit_def update_conv')

lemma dom_foldl_addCredit:
  "dom (map_of (credits (foldl addCredit t cs))) = dom (map_of (credits t)) \<union> Operation ` set cs"
  by (induction cs arbitrary: t) (auto simp: dom_addCredit)

lemma foldl_addCredit_frame:
  "uuid (foldl addCredit t cs) = uuid t \<and> service (foldl addCredit t cs) = service t \<and>
   hostPort (foldl addCredit t cs) = hostPort t \<and> sent (foldl addCredit t cs) = sent t \<and>
   logged (foldl addCredit t cs) = logged t"
  by (induction cs arbitrary: t) (auto simp: addCredit_def)

lemma balance_cong: "credits t' = credits t \<Longrightarrow> balance t' operation = balance t operation"
  by (simp add: balance_def)

lemma IsThrottled_unknown:
  assumes n: "map_of (credits t) operation = None"
  shows "(uuid t \<noteq> [] \<longrightarrow>
         sent (snd (IsThrottled getJSON t operation)) =
           sent t @ [\<lparr>req_hostPort = hostPort t, req_service = service t, req_uuid = uuid t,
                     req_operations = [operation]\<rparr>]) \<and>
      (uuid t = [] \<longrightarrow>
         sent (snd (IsThrottled getJSON t operation)) = sent t \<and>
         logged (snd (IsThrottled getJSON t operation)) =
           logged t @ [''Throttler uuid is not set, failed to fetch credits'']) \<and>
      (fst (fetchCreditsHelper getJSON t [operation]) = [] \<longrightarrow>
         fst (IsThrottled getJSON t operation)) \<and>
      (\<forall>c cs. fst (fetchCreditsHelper getJSON t [operation]) = c # cs \<longrightarrow>
         fst (IsThrottled getJSON t operation) = flt (Credits c) minimumCredits \<and>
         balance (snd (IsThrottled getJSON t operation)) operation =
           (if flt (Credits c) minimumCredits then Credits c
            else fsub (Credits c) minimumCredits))"
proof (intro conjI impI allI)
  obtain cs t1 where f: "fetchCreditsHelper getJSON t [operation] = (cs, t1)"
    by (cases "fetchCreditsHelper getJSON t [operation]")
  have I: "IsThrottled getJSON t operation =
      (if cs = [] then (True, t1)
       else isThrottled (t1\<lparr>credits := AList.update operation (Credits (cs ! 0)) (credits t1)\<rparr>)
              operation)"
    using n f by (simp add: IsThrottled_def)
  have sentI: "sent (snd (IsThrottled getJSON t operation)) = sent t1"
    and logI: "logged (snd (IsThrottled getJSON t operation)) = logged t1"
    by (simp_all add: I isThrottled_frame)
  {
    assume u: "uuid t \<noteq> []"
    show "sent (snd (IsThrottled getJSON t operation)) =
           sent t @ [\<lparr>req_hostPort = hostPort t, req_service = service t, req_uuid = uuid t,
                     req_operations = [operation]\<rparr>]"
      using fetchCreditsHelper_sent[OF u, of getJSON "[operation]"] f sentI by simp
  }
  {
    assume u: "uuid t = []"
    from fetchCreditsHelper_no_uuid[OF u, of getJSON "[operation]"] f
    have t1: "t1 = t\<lparr>logged := logged t @ [''Throttler uuid is not set, failed to fetch credits'']\<rparr>"
      by simp
    show "sent (snd (IsThrottled getJSON t operation)) = sent t"
      using sentI t1 by simp
    show "logged (snd (IsThrottled getJSON t operation)) =
           logged t @ [''Throttler uuid is not set, failed to fetch credits'']"
      using logI t1 by simp
  }
  {
    assume "fst (fetchCreditsHelper getJSON t [operation]) = []"
    then show "fst (IsThrottled getJSON t operation)" using f I by simp
  }
  {
    fix c cs'
    assume "fst (fetchCreditsHelper getJSON t [operation]) = c # cs'"
    then have cs: "cs = c # cs'" using f by simp
    show "fst (IsThrottled getJSON t operation) = flt (Credits c) minimumCredits"
      by (simp add: I cs isThrottled_def balance_update Let_def)
    show "balance (snd (IsThrottled getJSON t operation)) operation =
           (if flt (Credits c) minimumCredits then Credits c
            else fsub (Credits c) minimumCredits)"
      by (simp add: I cs isThrottled_def balance_update Let_def)
  }
qed

lemma IsThrottled_known:
  assumes b: "map_of (credits t) operation = Some b"
  shows "IsThrottled getJSON t operation =
        (if flt b minimumCredits then (True, t)
         else (False, t\<lparr>credits := AList.update operation (fsub b minimumCredits) (credits t)\<rparr>))"
proof -
  have "balance t operation = b" using b by (simp add: balance_def)
  then show ?thesis using b by (simp add: IsThrottled_def isThrottled_def Let_def)
qed

text \<open>
  Claim C4, as amended. For an operation present in the credits map with balance \<open>b\<close>,
  \<open>IsThrottled\<close> returns true exactly when \<open>b < 1.0\<close>; for every balance that is a
  number this is to say that it returns false exactly when \<open>b\<close> is at least \<open>1.0\<close>. When
  it returns true the throttler is unchanged (no request, no log entry). When it returns
  false the balance becomes the \<open>float64\<close> difference \<open>b - 1.0\<close> and nothing else
  changes; for a balance up to \<open>2\<^sup>5\<^sup>3\<close> that difference is exactly \<open>b - 1\<close>. For an
  operation absent from the map the credits are fetched first: with a uuid set, one request
  for exactly this operation is sent; with no uuid, the error is logged and nothing is
  sent. If the fetch yields no credits, \<open>IsThrottled\<close> returns true; if it yields credits,
  the first of them becomes the balance and is tested the same way.
\<close>

theorem IsThrottled_known_and_unknown:
  "(map_of (credits t) operation = Some b \<longrightarrow>
      IsThrottled getJSON t operation =
        (if flt b minimumCredits then (True, t)
         else (False, t\<lparr>credits := AList.update operation (fsub b minimumCredits) (credits t)\<rparr>)) \<and>
      (b \<noteq> NaN \<longrightarrow> fst (IsThrottled getJSON t operation) = (\<not> fle minimumCredits b)) \<and>
      (\<not> fst (IsThrottled getJSON t operation) \<longrightarrow>
         map_of (credits (snd (IsThrottled getJSON t operation))) =
           (map_of (credits t))(operation \<mapsto> fsub b minimumCredits)) \<and>
      (isFloat64 b \<and> fle minimumCredits b \<and> fle b (Finite False 4503599627370496 1) \<longrightarrow>
         (\<exists>x. valueOf b = Some x \<and> valueOf (fsub b minimumCredits) = Some (x - 1)))) \<and>
   (map_of (credits t) operation = None \<longrightarrow>
      (uuid t \<noteq> [] \<longrightarrow>
         sent (snd (IsThrottled getJSON t operation)) =
           sent t @ [\<lparr>req_hostPort = hostPort t, req_service = service t, req_uuid = uuid t,
                     req_operations = [operation]\<rparr>]) \<and>
      (uuid t = [] \<longrightarrow>
         sent (snd (IsThrottled getJSON t operation)) = sent t \<and>
         logged (snd (IsThrottled getJSON t operation)) =
           logged t @ [''Throttler uuid is not set, failed to fetch credits'']) \<and>
      (fst (fetchCreditsHelper getJSON t [operation]) = [] \<longrightarrow>
         fst (IsThrottled getJSON t operation)) \<and>
      (\<forall>c cs. fst (fetchCreditsHelper getJSON t [operation]) = c # cs \<longrightarrow>
         fst (IsThrottled getJSON t operation) = flt (Credits c) minimumCredits \<and>
         balance (snd (IsThrottled getJSON t operation)) operation =
           (if flt (Credits c) minimumCredits then Credits c
            else fsub (Credits c) minimumCredits)))"
proof (rule conjI)
  show "map_of (credits t) operation = Some b \<longrightarrow>
      IsThrottled getJSON t operation =
        (if flt b minimumCredits then (True, t)
         else (False, t\<lparr>credits := AList.update operation (fsub b minimumCredits) (credits t)\<rparr>)) \<and>
      (b \<noteq> NaN \<longrightarrow> fst (IsThrottled getJSON t operation) = (\<not> fle minimumCredits b)) \<and>
      (\<not> fst (IsThrottled getJSON t operation) \<longrightarrow>
         map_of (credits (snd (IsThrottled getJSON t operation))) =
           (map_of (credits t))(operation \<mapsto> fsub b minimumCredits)) \<and>
      (isFloat64 b \<and> fle minimumCredits b \<and> fle b (Finite False 4503599627370496 1) \<longrightarrow>
         (\<exists>x. valueOf b = Some x \<and> valueOf (fsub b minimumCredits) = Some (x - 1)))"
  proof (intro impI conjI)
    assume b: "map_of (credits t) operation = Some b"
    show k: "IsThrottled getJSON t operation =
        (if flt b minimumCredits then (True, t)
         else (False, t\<lparr>credits := AList.update operation (fsub b minimumCredits) (credits t)\<rparr>))"
      using b by (rule IsThrottled_known)
    {
      assume "b \<noteq> NaN"
      then have "flt b minimumCredits = (\<not> fle minimumCredits b)"
        by (intro flt_not_fle) (simp_all add: minimumCredits_def)
      then show "fst (IsThrottled getJSON t operation) = (\<not> fle minimumCredits b)"
        by (simp add: k)
    }
    {
      assume "\<not> fst (IsThrottled getJSON t operation)"
      then have "\<not> flt b minimumCredits" by (simp add: k split: if_splits)
      then show "map_of (credits (snd (IsThrottled getJSON t operation))) =
           (map_of (credits t))(operation \<mapsto> fsub b minimumCredits)"
        by (simp add: k update_conv')
    }
    {
      assume "isFloat64 b \<and> fle minimumCredits b \<and> fle b (Finite False 4503599627370496 1)"
      then show "\<exists>x. valueOf b = Some x \<and> valueOf (fsub b minimumCredits) = Some (x - 1)"
        by (intro fsub_minimumCredits_exact) simp_all
    }
  qed
next
  show "map_of (credits t) operation = None \<longrightarrow>
      (uuid t \<noteq> [] \<longrightarrow>
         sent (snd (IsThrottled getJSON t operation)) =
           sent t @ [\<lparr>req_hostPort = hostPort t, req_service = service t, req_uuid = uuid t,
                     req_operations = [operation]\<rparr>]) \<and>
      (uuid t = [] \<longrightarrow>
         sent (snd (IsThrottled getJSON t operation)) = sent t \<and>
         logged (snd (IsThrottled getJSON t operation)) =
           logged t @ [''Throttler uuid is not set, failed to fetch credits'']) \<and>
      (fst (fetchCreditsHelper getJSON t [operation]) = [] \<longrightarrow>
         fst (IsThrottled getJSON t operation)) \<and>
      (\<forall>c cs. fst (fetchCreditsHelper getJSON t [operation]) = c # cs \<longrightarrow>
         fst (IsThrottled getJSON t operation) = flt (Credits c) minimumCredits \<and>
         balance (snd (IsThrottled getJSON t operation)) operation =
           (if flt (Credits c) minimumCredits then Credits c
            else fsub (Credits c) minimumCredits))"
    using IsThrottled_unknown[of t operation getJSON] by blast
qed

text \<open>
  Balances \<open>3\<close> (not throttled, \<open>2\<close> left, exactly) and \<open>0.5\<close> (throttled, unchanged); an
  unknown operation whose fetch comes back empty, one whose fetch brings 5 credits (not
  throttled, 4 left), and one asked about before the uuid is set.
\<close>

theorem IsThrottled_known_and_unknown_witness:
  "map_of (credits \<lparr>hostPort = ''h'', service = ''svc'', uuid = ''u'',
                     credits = [(''op'', f64 3)], logged = [], sent = []\<rparr>) ''op'' = Some (f64 3) \<and>
   IsThrottled (\<lambda>r. ([], None))
     \<lparr>hostPort = ''h'', service = ''svc'', uuid = ''u'', credits = [(''op'', f64 3)],
      logged = [], sent = []\<rparr> ''op'' =
     (False, \<lparr>hostPort = ''h'', service = ''svc'', uuid = ''u'', credits = [(''op'', f64 2)],
              logged = [], sent = []\<rparr>) \<and>
   isFloat64 (f64 3) \<and> fle minimumCredits (f64 3) \<and>
   fle (f64 3) (Finite False 4503599627370496 1) \<and>
   valueOf (f64 3) = Some 3 \<and> valueOf (fsub (f64 3) minimumCredits) = Some 2 \<and>
   map_of (credits \<lparr>hostPort = ''h'', service = ''svc'', uuid = ''u'',
                     credits = [(''op'', Finite False 4503599627370496 (- 53))],
                     logged = [], sent = []\<rparr>) ''op'' =
     Some (Finite False 4503599627370496 (- 53)) \<and>
   IsThrottled (\<lambda>r. ([], None))
     \<lparr>hostPort = ''h'', service = ''svc'', uuid = ''u'',
      credits = [(''op'', Finite False 4503599627370496 (- 53))],
      logged = [], sent = []\<rparr> ''op'' =
     (True, \<lparr>hostPort = ''h'', service = ''svc'', uuid = ''u'',
             credits = [(''op'', Finite False 4503599627370496 (- 53))],
             logged = [], sent = []\<rparr>) \<and>
   map_of (credits \<lparr>hostPort = ''h'', service = ''svc'', uuid = ''u'',
                     credits = [], logged = [], sent = []\<rparr>) ''op'' = None \<and>
   fst (fetchCreditsHelper (\<lambda>r. ([], None))
          \<lparr>hostPort = ''h'', service = ''svc'', uuid = ''u'', credits = [], logged = [],
           sent = []\<rparr> [''op'']) = [] \<and>
   fst (IsThrottled (\<lambda>r. ([], None))
          \<lparr>hostPort = ''h'', service = ''svc'', uuid = ''u'', credits = [], logged = [],
           sent = []\<rparr> ''op'') \<and>
   sent (snd (IsThrottled (\<lambda>r. ([], None))
          \<lparr>hostPort = ''h'', service = ''svc'', uuid = ''u'', credits = [], logged = [],
           sent = []\<rparr> ''op'')) =
     [\<lparr>req_hostPort = ''h'', req_service = ''svc'', req_uuid = ''u'', req_operations = [''op'']\<rparr>] \<and>
   fst (fetchCreditsHelper (\<lambda>r. ([\<lparr>Operation = ''op'', Credits = f64 5\<rparr>], None))
          \<lparr>hostPort = ''h'', service = ''svc'', uuid = ''u'', credits = [], logged = [],
           sent = []\<rparr> [''op'']) = [\<lparr>Operation = ''op'', Credits = f64 5\<rparr>] \<and>
   \<not> fst (IsThrottled (\<lambda>r. ([\<lparr>Operation = ''op'', Credits = f64 5\<rparr>], None))
          \<lparr>hostPort = ''h'', service = ''svc'', uuid = ''u'', credits = [], logged = [],
           sent = []\<rparr> ''op'') \<and>
   balance (snd (IsThrottled (\<lambda>r. ([\<lparr>Operation = ''op'', Credits = f64 5\<rparr>], None))
          \<lparr>hostPort = ''h'', service = ''svc'', uuid = ''u'', credits = [], logged = [],
           sent = []\<rparr> ''op'')) ''op'' = f64 4 \<and>
   logged (snd (IsThrottled (\<lambda>r. ([\<lparr>Operation = ''op'', Credits = f64 5\<rparr>], None))
          \<lparr>hostPort = ''h'', service = ''svc'', uuid = [], credits = [], logged = [],
           sent = []\<rparr> ''op'')) = [''Throttler uuid is not set, failed to fetch credits'']"
proof -
  let ?g = "\<lambda>r::request. ([] :: creditResponse list, None :: string option)"
  let ?g5 = "\<lambda>r::request. ([\<lparr>Operation = ''op'', Credits = f64 5\<rparr>], None :: string option)"
  let ?t = "\<lambda>cr. \<lparr>hostPort = ''h'', service = ''svc'', uuid = ''u'', credits = cr,
                  logged = [], sent = []\<rparr>"
  let ?tn = "\<lparr>hostPort = ''h'', service = ''svc'', uuid = [], credits = [],
                  logged = [], sent = []\<rparr>"
  let ?half = "Finite False 4503599627370496 (- 53)"
  have three: "f64 3 = Finite False 6755399441055744 (- 51)" by (simp add: f64_eval)
  have two: "f64 2 = Finite False 4503599627370496 (- 51)" by (simp add: f64_eval)
  have five: "f64 5 = Finite False 5629499534213120 (- 50)" by (simp add: f64_eval)
  have four: "f64 4 = Finite False 4503599627370496 (- 50)" by (simp add: f64_eval)
  have v3: "isFloat64 (f64 3)" by (simp add: three)
  have g3: "fle minimumCredits (f64 3)" by (simp add: three minimumCredits_def sval_def)
  have l3: "fle (f64 3) (Finite False 4503599627370496 1)" by (simp add: three sval_def)
  have x3: "valueOf (f64 3) = Some 3" by (simp add: three sval_def)
  have s3: "fsub (f64 3) minimumCredits = f64 2" unfolding three two by (simp add: f64_eval)
  have s5: "fsub (f64 5) minimumCredits = f64 4" unfolding five four by (simp add: f64_eval)
  have n3: "\<not> flt (f64 3) minimumCredits" by (simp add: three minimumCredits_def sval_def)
  have n5: "\<not> flt (f64 5) minimumCredits" by (simp add: five minimumCredits_def sval_def)
  have nh: "flt ?half minimumCredits" by (simp add: minimumCredits_def sval_def)
  have k1: "map_of (credits (?t [(''op'', f64 3)])) ''op'' = Some (f64 3)" by simp
  have k2: "map_of (credits (?t [(''op'', ?half)])) ''op'' = Some ?half" by simp
  have k3: "map_of (credits (?t [])) ''op'' = None" by simp
  have k4: "fst (fetchCreditsHelper ?g (?t []) [''op'']) = []"
    by (simp add: fetchCreditsHelper_def FetchCredits_def)
  have k5: "fst (fetchCreditsHelper ?g5 (?t []) [''op'']) = [\<lparr>Operation = ''op'', Credits = f64 5\<rparr>]"
    by (simp add: fetchCreditsHelper_def FetchCredits_def)
  have k6: "map_of (credits ?tn) ''op'' = None" by simp
  have u: "uuid (?t []) \<noteq> []" by simp
  have u0: "uuid ?tn = []" by simp
  note th3 = IsThrottled_known_and_unknown[of "?t [(''op'', f64 3)]" "''op''" "f64 3" ?g]
  have r1: "IsThrottled ?g (?t [(''op'', f64 3)]) ''op'' = (False, ?t [(''op'', f64 2)])"
    using th3 k1 n3 s3 by simp
  have "\<exists>x. valueOf (f64 3) = Some x \<and> valueOf (fsub (f64 3) minimumCredits) = Some (x - 1)"
    using th3 k1 v3 g3 l3 by blast
  then have e3: "valueOf (fsub (f64 3) minimumCredits) = Some 2" using x3 by auto
  have r2: "IsThrottled ?g (?t [(''op'', ?half)]) ''op'' = (True, ?t [(''op'', ?half)])"
    using IsThrottled_known_and_unknown[of "?t [(''op'', ?half)]" "''op''" ?half ?g] k2 nh
    by simp
  have r3: "fst (IsThrottled ?g (?t []) ''op'')"
    using IsThrottled_known_and_unknown[of "?t []" "''op''" NaN ?g] k3 k4 by blast
  have r4: "sent (snd (IsThrottled ?g (?t []) ''op'')) =
     [\<lparr>req_hostPort = ''h'', req_service = ''svc'', req_uuid = ''u'', req_operations = [''op'']\<rparr>]"
    using IsThrottled_known_and_unknown[of "?t []" "''op''" NaN ?g] k3 u by simp
  have "fst (IsThrottled ?g5 (?t []) ''op'') =
          flt (Credits \<lparr>Operation = ''op'', Credits = f64 5\<rparr>) minimumCredits \<and>
      balance (snd (IsThrottled ?g5 (?t []) ''op'')) ''op'' =
        (if flt (Credits \<lparr>Operation = ''op'', Credits = f64 5\<rparr>) minimumCredits
         then Credits \<lparr>Operation = ''op'', Credits = f64 5\<rparr>
         else fsub (Credits \<lparr>Operation = ''op'', Credits = f64 5\<rparr>) minimumCredits)"
    using IsThrottled_known_and_unknown[of "?t []" "''op''" NaN ?g5] k3 k5 by blast
  then have r5: "\<not> fst (IsThrottled ?g5 (?t []) ''op'')"
    and r6: "balance (snd (IsThrottled ?g5 (?t []) ''op'')) ''op'' = f64 4"
    using n5 s5 by simp_all
  have r7: "logged (snd (IsThrottled ?g5 ?tn ''op'')) =
      [''Throttler uuid is not set, failed to fetch credits'']"
    using IsThrottled_known_and_unknown[of ?tn "''op''" NaN ?g5] k6 u0 by simp
  from k1 k2 k3 k4 k5 r1 r2 r3 r4 r5 r6 r7 v3 g3 l3 x3 e3 show ?thesis by blast
qed

text \<open>
  Claim C4, as stated, fails for a large balance. The balance \<open>2\<^sup>5\<^sup>4\<close> is at least
  \<open>1.0\<close> and \<open>IsThrottled\<close> returns false, but the balance is not debited: \<open>2\<^sup>5\<^sup>4 - 1\<close>
  is no \<open>float64\<close> value, the difference rounds back to \<open>2\<^sup>5\<^sup>4\<close>, and the throttler
  is left as it was.
\<close>

theorem IsThrottled_large_balance_not_debited:
  "valueOf (Finite False 4503599627370496 2) = Some 18014398509481984 \<and>
   isFloat64 (Finite False 4503599627370496 2) \<and>
   fle minimumCredits (Finite False 4503599627370496 2) \<and>
   IsThrottled (\<lambda>r. ([], None))
     \<lparr>hostPort = ''h'', service = ''svc'', uuid = ''u'',
      credits = [(''op'', Finite False 4503599627370496 2)], logged = [], sent = []\<rparr> ''op'' =
     (False,
      \<lparr>hostPort = ''h'', service = ''svc'', uuid = ''u'',
       credits = [(''op'', Finite False 4503599627370496 2)], logged = [], sent = []\<rparr>) \<and>
   valueOf (balance (snd (IsThrottled (\<lambda>r. ([], None))
     \<lparr>hostPort = ''h'', service = ''svc'', uuid = ''u'',
      credits = [(''op'', Finite False 4503599627370496 2)], logged = [], sent = []\<rparr> ''op''))
      ''op'') \<noteq> Some (18014398509481984 - 1)"
  by (simp add: IsThrottled_def isThrottled_def balance_def f64_eval)

text \<open>
  Why the amended claim speaks of balances that are numbers: the test of the code is
  \<open>credits < 1.0\<close>, which is false for NaN, as is \<open>1.0 <= credits\<close>.
\<close>

lemma IsThrottled_NaN_balance:
  "IsThrottled (\<lambda>r. ([], None))
     \<lparr>hostPort = ''h'', service = ''svc'', uuid = ''u'', credits = [(''op'', NaN)],
      logged = [], sent = []\<rparr> ''op'' =
     (False, \<lparr>hostPort = ''h'', service = ''svc'', uuid = ''u'', credits = [(''op'', NaN)],
              logged = [], sent = []\<rparr>) \<and>
   \<not> fle minimumCredits NaN"
  by (simp add: IsThrottled_def isThrottled_def balance_def fsub_def minimumCredits_def)

text \<open>
  Claim C7. While the stored uuid is the empty string, as it is from \<open>NewThrottler\<close> until
  \<open>SetUUID\<close> stores another one, every credit fetch logs the error
  \<open>Throttler uuid is not set, failed to fetch credits\<close> and returns no credits, and no
  request is sent. This holds for the fetch itself, for the poll (which then changes nothing
  but the log) and for the fetch inside \<open>IsThrottled\<close> (which then reports throttled).
\<close>

theorem fetch_without_uuid:
  "(uuid t = [] \<longrightarrow>
      fetchCreditsHelper getJSON t operations =
        ([], t\<lparr>logged := logged t @ [''Throttler uuid is not set, failed to fetch credits'']\<rparr>) \<and>
      sent (snd (fetchCreditsHelper getJSON t operations)) = sent t \<and>
      fetchCredits getJSON t =
        t\<lparr>logged := logged t @ [''Throttler uuid is not set, failed to fetch credits'']\<rparr> \<and>
      (map_of (credits t) operation = None \<longrightarrow>
         IsThrottled getJSON t operation =
           (True, t\<lparr>logged := logged t @ [''Throttler uuid is not set, failed to fetch credits'']\<rparr>))) \<and>
   uuid (NewThrottler svc hp) = [] \<and>
   uuid (SetUUID u t) = u"
  by (simp add: fetchCreditsHelper_def fetchCredits_def IsThrottled_def NewThrottler_def
      SetUUID_def)

text \<open>A fresh throttler asked about an operation the agent would have credits for.\<close>

theorem fetch_without_uuid_witness:
  "uuid (NewThrottler ''svc'' ''h'') = [] \<and>
   fetchCreditsHelper (\<lambda>r. ([\<lparr>Operation = ''op'', Credits = f64 5\<rparr>], None))
     (NewThrottler ''svc'' ''h'') [''op''] =
     ([], \<lparr>hostPort = ''h'', service = ''svc'', uuid = [], credits = [],
           logged = [''Throttler uuid is not set, failed to fetch credits''], sent = []\<rparr>) \<and>
   IsThrottled (\<lambda>r. ([\<lparr>Operation = ''op'', Credits = f64 5\<rparr>], None))
     (NewThrottler ''svc'' ''h'') ''op'' =
     (True, \<lparr>hostPort = ''h'', service = ''svc'', uuid = [], credits = [],
           logged = [''Throttler uuid is not set, failed to fetch credits''], sent = []\<rparr>)"
proof -
  let ?g = "\<lambda>r::request. ([\<lparr>Operation = ''op'', Credits = f64 5\<rparr>], None :: string option)"
  have u: "uuid (NewThrottler ''svc'' ''h'') = []" by (simp add: NewThrottler_def)
  have n: "map_of (credits (NewThrottler ''svc'' ''h'')) ''op'' = None"
    by (simp add: NewThrottler_def)
  have "fetchCreditsHelper ?g (NewThrottler ''svc'' ''h'') [''op''] =
      ([], (NewThrottler ''svc'' ''h'')\<lparr>logged := logged (NewThrottler ''svc'' ''h'') @
         [''Throttler uuid is not set, failed to fetch credits'']\<rparr>)"
    using fetch_without_uuid[of "NewThrottler ''svc'' ''h''" ?g "[''op'']" "''op''"] u by blast
  moreover have "IsThrottled ?g (NewThrottler ''svc'' ''h'') ''op'' =
      (True, (NewThrottler ''svc'' ''h'')\<lparr>logged := logged (NewThrottler ''svc'' ''h'') @
         [''Throttler uuid is not set, failed to fetch credits'']\<rparr>)"
    using fetch_without_uuid[of "NewThrottler ''svc'' ''h''" ?g "[''op'']" "''op''"] u n by blast
  ultimately show ?thesis using u by (simp add: NewThrottler_def)
qed

text \<open>
  Claim C10. When the operation is absent from the credits map and the fetch returns an
  empty list, \<open>IsThrottled\<close> returns true and the credits map is unchanged, so the
  operation is still absent. A second call for the same operation fetches again: with a
  uuid set, the same request is sent a second time; with no uuid, the error is logged a
  second time; and credits that the second fetch returns decide the second answer.
\<close>

theorem IsThrottled_empty_fetch:
  assumes "map_of (credits t) operation = None"
    and "fst (fetchCreditsHelper getJSON t [operation]) = []"
  shows "fst (IsThrottled getJSON t operation) \<and>
         credits (snd (IsThrottled getJSON t operation)) = credits t \<and>
         map_of (credits (snd (IsThrottled getJSON t operation))) operation = None \<and>
         IsThrottled getJSON t operation = (True, snd (fetchCreditsHelper getJSON t [operation])) \<and>
         (uuid t \<noteq> [] \<longrightarrow>
            sent (snd (IsThrottled getJSON' (snd (IsThrottled getJSON t operation)) operation)) =
              sent t @
              [\<lparr>req_hostPort = hostPort t, req_service = service t, req_uuid = uuid t,
                req_operations = [operation]\<rparr>,
               \<lparr>req_hostPort = hostPort t, req_service = service t, req_uuid = uuid t,
                req_operations = [operation]\<rparr>]) \<and>
         (uuid t = [] \<longrightarrow>
            logged (snd (IsThrottled getJSON' (snd (IsThrottled getJSON t operation)) operation)) =
              logged t @
              [''Throttler uuid is not set, failed to fetch credits'',
               ''Throttler uuid is not set, failed to fetch credits'']) \<and>
         (\<forall>c cs.
            fst (fetchCreditsHelper getJSON' (snd (IsThrottled getJSON t operation)) [operation]) =
              c # cs \<longrightarrow>
            fst (IsThrottled getJSON' (snd (IsThrottled getJSON t operation)) operation) =
              flt (Credits c) minimumCredits)"
proof -
  obtain cs t1 where f: "fetchCreditsHelper getJSON t [operation] = (cs, t1)"
    by (cases "fetchCreditsHelper getJSON t [operation]")
  have cs: "cs = []" using assms(2) f by simp
  have I: "IsThrottled getJSON t operation = (True, t1)"
    using assms(1) f cs by (simp add: IsThrottled_def)
  have fr: "credits t1 = credits t" "uuid t1 = uuid t" "service t1 = service t"
    "hostPort t1 = hostPort t"
    using fetchCreditsHelper_frame[of getJSON t "[operation]"] f by simp_all
  have n1: "map_of (credits t1) operation = None" using fr assms(1) by simp
  have a: "fst (IsThrottled getJSON t operation)" by (simp add: I)
  have b: "credits (snd (IsThrottled getJSON t operation)) = credits t" by (simp add: I fr)
  have c: "map_of (credits (snd (IsThrottled getJSON t operation))) operation = None"
    by (simp add: I n1)
  have d: "IsThrottled getJSON t operation = (True, snd (fetchCreditsHelper getJSON t [operation]))"
    by (simp add: I f)
  have e: "uuid t \<noteq> [] \<longrightarrow>
            sent (snd (IsThrottled getJSON' (snd (IsThrottled getJSON t operation)) operation)) =
              sent t @
              [\<lparr>req_hostPort = hostPort t, req_service = service t, req_uuid = uuid t,
                req_operations = [operation]\<rparr>,
               \<lparr>req_hostPort = hostPort t, req_service = service t, req_uuid = uuid t,
                req_operations = [operation]\<rparr>]"
  proof
    assume u: "uuid t \<noteq> []"
    then have u1: "uuid t1 \<noteq> []" using fr by simp
    have s1: "sent t1 = sent t @ [\<lparr>req_hostPort = hostPort t, req_service = service t,
        req_uuid = uuid t, req_operations = [operation]\<rparr>]"
      using fetchCreditsHelper_sent[OF u, of getJSON "[operation]"] f by simp
    have "sent (snd (IsThrottled getJSON' t1 operation)) =
        sent t1 @ [\<lparr>req_hostPort = hostPort t1, req_service = service t1, req_uuid = uuid t1,
                     req_operations = [operation]\<rparr>]"
      using IsThrottled_unknown[where t = t1 and operation = operation and getJSON = getJSON', OF n1] n1 u1 by blast
    then show "sent (snd (IsThrottled getJSON' (snd (IsThrottled getJSON t operation)) operation)) =
              sent t @
              [\<lparr>req_hostPort = hostPort t, req_service = service t, req_uuid = uuid t,
                req_operations = [operation]\<rparr>,
               \<lparr>req_hostPort = hostPort t, req_service = service t, req_uuid = uuid t,
                req_operations = [operation]\<rparr>]"
      by (simp add: I s1 fr)
  qed
  have g: "uuid t = [] \<longrightarrow>
            logged (snd (IsThrottled getJSON' (snd (IsThrottled getJSON t operation)) operation)) =
              logged t @
              [''Throttler uuid is not set, failed to fetch credits'',
               ''Throttler uuid is not set, failed to fetch credits'']"
  proof
    assume u: "uuid t = []"
    then have u1: "uuid t1 = []" using fr by simp
    have l1: "logged t1 = logged t @ [''Throttler uuid is not set, failed to fetch credits'']"
      using fetchCreditsHelper_no_uuid[OF u, of getJSON "[operation]"] f by auto
    have "logged (snd (IsThrottled getJSON' t1 operation)) =
        logged t1 @ [''Throttler uuid is not set, failed to fetch credits'']"
      using IsThrottled_unknown[where t = t1 and operation = operation and getJSON = getJSON', OF n1] n1 u1 by blast
    then show "logged (snd (IsThrottled getJSON' (snd (IsThrottled getJSON t operation)) operation)) =
              logged t @
              [''Throttler uuid is not set, failed to fetch credits'',
               ''Throttler uuid is not set, failed to fetch credits'']"
      by (simp add: I l1)
  qed
  have h: "\<forall>c cs.
            fst (fetchCreditsHelper getJSON' (snd (IsThrottled getJSON t operation)) [operation]) =
              c # cs \<longrightarrow>
            fst (IsThrottled getJSON' (snd (IsThrottled getJSON t operation)) operation) =
              flt (Credits c) minimumCredits"
    using IsThrottled_unknown[where t = t1 and operation = operation and getJSON = getJSON', OF n1] n1 by (simp add: I)
  from a b c d e g h show ?thesis by blast
qed

text \<open>
  The agent refuses the connection: the call reports throttled and the map keeps its one
  entry. The next call sends the request again and, given 2 credits, does not throttle.
\<close>

theorem IsThrottled_empty_fetch_witness:
  "map_of (credits \<lparr>hostPort = ''h'', service = ''svc'', uuid = ''u'', credits = [(''a'', f64 3)],
                     logged = [], sent = []\<rparr>) ''op'' = None \<and>
   fst (fetchCreditsHelper (\<lambda>r. ([], Some ''refused''))
          \<lparr>hostPort = ''h'', service = ''svc'', uuid = ''u'', credits = [(''a'', f64 3)],
           logged = [], sent = []\<rparr> [''op'']) = [] \<and>
   IsThrottled (\<lambda>r. ([], Some ''refused''))
     \<lparr>hostPort = ''h'', service = ''svc'', uuid = ''u'', credits = [(''a'', f64 3)],
      logged = [], sent = []\<rparr> ''op'' =
     (True,
      \<lparr>hostPort = ''h'', service = ''svc'', uuid = ''u'', credits = [(''a'', f64 3)],
       logged = [''Failed to receive credits from agent: refused''],
       sent = [\<lparr>req_hostPort = ''h'', req_service = ''svc'', req_uuid = ''u'',
                req_operations = [''op'']\<rparr>]\<rparr>) \<and>
   sent (snd (IsThrottled (\<lambda>r. ([\<lparr>Operation = ''op'', Credits = f64 2\<rparr>], None))
     (snd (IsThrottled (\<lambda>r. ([], Some ''refused''))
        \<lparr>hostPort = ''h'', service = ''svc'', uuid = ''u'', credits = [(''a'', f64 3)],
         logged = [], sent = []\<rparr> ''op'')) ''op'')) =
     [\<lparr>req_hostPort = ''h'', req_service = ''svc'', req_uuid = ''u'', req_operations = [''op'']\<rparr>,
      \<lparr>req_hostPort = ''h'', req_service = ''svc'', req_uuid = ''u'', req_operations = [''op'']\<rparr>] \<and>
   \<not> fst (IsThrottled (\<lambda>r. ([\<lparr>Operation = ''op'', Credits = f64 2\<rparr>], None))
     (snd (IsThrottled (\<lambda>r. ([], Some ''refused''))
        \<lparr>hostPort = ''h'', service = ''svc'', uuid = ''u'', credits = [(''a'', f64 3)],
         logged = [], sent = []\<rparr> ''op'')) ''op'')"
proof -
  let ?g = "\<lambda>r::request. ([] :: creditResponse list, Some ''refused'')"
  let ?g2 = "\<lambda>r::request. ([\<lparr>Operation = ''op'', Credits = f64 2\<rparr>], None :: string option)"
  let ?t = "\<lparr>hostPort = ''h'', service = ''svc'', uuid = ''u'', credits = [(''a'', f64 3)],
             logged = [], sent = []\<rparr>"
  let ?t1 = "\<lparr>hostPort = ''h'', service = ''svc'', uuid = ''u'', credits = [(''a'', f64 3)],
       logged = [''Failed to receive credits from agent: refused''],
       sent = [\<lparr>req_hostPort = ''h'', req_service = ''svc'', req_uuid = ''u'',
                req_operations = [''op'']\<rparr>]\<rparr>"
  have n: "map_of (credits ?t) ''op'' = None" by simp
  have f: "fetchCreditsHelper ?g ?t [''op''] = ([], ?t1)"
    by (simp add: fetchCreditsHelper_def FetchCredits_def)
  have e: "fst (fetchCreditsHelper ?g ?t [''op'']) = []" by (simp add: f)
  note th = IsThrottled_empty_fetch[OF n e, of ?g2]
  have i: "IsThrottled ?g ?t ''op'' = (True, snd (fetchCreditsHelper ?g ?t [''op'']))"
    using th by blast
  then have i1: "IsThrottled ?g ?t ''op'' = (True, ?t1)" by (simp add: f)
  have u: "uuid ?t \<noteq> []" by simp
  have s2: "sent (snd (IsThrottled ?g2 (snd (IsThrottled ?g ?t ''op'')) ''op'')) =
      sent ?t @
      [\<lparr>req_hostPort = hostPort ?t, req_service = service ?t, req_uuid = uuid ?t,
        req_operations = [''op'']\<rparr>,
       \<lparr>req_hostPort = hostPort ?t, req_service = service ?t, req_uuid = uuid ?t,
        req_operations = [''op'']\<rparr>]"
    using th u by blast
  have f2: "fst (fetchCreditsHelper ?g2 (snd (IsThrottled ?g ?t ''op'')) [''op'']) =
      \<lparr>Operation = ''op'', Credits = f64 2\<rparr> # []"
    by (simp add: i1 fetchCreditsHelper_def FetchCredits_def)
  have "fst (IsThrottled ?g2 (snd (IsThrottled ?g ?t ''op'')) ''op'') =
      flt (Credits \<lparr>Operation = ''op'', Credits = f64 2\<rparr>) minimumCredits"
    using th f2 by blast
  then have r2: "\<not> fst (IsThrottled ?g2 (snd (IsThrottled ?g ?t ''op'')) ''op'')"
    by (simp add: f64_eval)
  from n e i1 s2 r2 show ?thesis by simp
qed

text \<open>
  Balances stay numbers. A fresh throttler has no balance; \<open>IsThrottled\<close> stores a fetched
  credit and takes \<open>1.0\<close> off a balance, and the poll adds the credits returned. As long
  as the credits the agent returns are finite numbers, which is all a JSON document can
  hold, no balance is ever NaN.
\<close>

lemma list_all_update:
  "P (k, v) \<Longrightarrow> list_all P al \<Longrightarrow> list_all P (AList.update k v al)"
  by (induction al) auto

lemma isNumber_balance: "numbers t \<Longrightarrow> isNumber (balance t operation)"
proof -
  assume n: "numbers t"
  show ?thesis
  proof (cases "map_of (credits t) operation")
    case None
    then show ?thesis by (simp add: balance_def isNumber_def)
  next
    case (Some c)
    then have "(operation, c) \<in> set (credits t)" by (rule map_of_SomeD)
    then have "isNumber c" using n by (auto simp: numbers_def list_all_iff)
    then show ?thesis using Some by (simp add: balance_def)
  qed
qed

lemma isNumber_fsub_minimumCredits: "isNumber x \<Longrightarrow> isNumber (fsub x minimumCredits)"
  by (simp add: isNumber_def isFloat64_fsub_minimumCredits fsub_minimumCredits_not_NaN)

lemma isNumber_fadd_finite:
  "isNumber x \<Longrightarrow> isFloat64 y \<Longrightarrow> isFinite y \<Longrightarrow> isNumber (fadd x y)"
  by (cases y) (simp_all add: isNumber_def isFloat64_fadd fadd_Finite_not_NaN del: isFloat64.simps)

lemma numbers_isThrottled: "numbers t \<Longrightarrow> numbers (snd (isThrottled t operation))"
proof -
  assume n: "numbers t"
  then have "isNumber (fsub (balance t operation) minimumCredits)"
    by (intro isNumber_fsub_minimumCredits isNumber_balance)
  then show ?thesis
    using n by (simp add: isThrottled_def Let_def numbers_def list_all_update)
qed

lemma numbers_fetchCreditsHelper:
  "numbers t \<Longrightarrow> numbers (snd (fetchCreditsHelper getJSON t operations))"
  using fetchCreditsHelper_frame[of getJSON t operations] by (simp add: numbers_def)

lemma numbers_IsThrottled:
  assumes n: "numbers t"
    and c: "list_all (\<lambda>c. isNumber (Credits c)) (fst (fetchCreditsHelper getJSON t [operation]))"
  shows "numbers (snd (IsThrottled getJSON t operation))"
proof (cases "map_of (credits t) operation")
  case (Some b)
  then show ?thesis using numbers_isThrottled[OF n, of operation] by (simp add: IsThrottled_def)
next
  case None
  obtain cs t1 where f: "fetchCreditsHelper getJSON t [operation] = (cs, t1)"
    by (cases "fetchCreditsHelper getJSON t [operation]")
  have n1: "numbers t1" using numbers_fetchCreditsHelper[OF n, of getJSON "[operation]"] f by simp
  show ?thesis
  proof (cases cs)
    case Nil
    then show ?thesis using None f n1 by (simp add: IsThrottled_def)
  next
    case (Cons c cs')
    then have "isNumber (Credits c)" using c f by simp
    then have "numbers (t1\<lparr>credits := AList.update operation (Credits c) (credits t1)\<rparr>)"
      using n1 by (simp add: numbers_def list_all_update)
    then have "numbers (snd (isThrottled
        (t1\<lparr>credits := AList.update operation (Credits c) (credits t1)\<rparr>) operation))"
      by (rule numbers_isThrottled)
    then show ?thesis using None f Cons by (simp add: IsThrottled_def)
  qed
qed

lemma numbers_addCredit:
  "numbers t \<Longrightarrow> isFloat64 (Credits c) \<Longrightarrow> isFinite (Credits c) \<Longrightarrow> numbers (addCredit t c)"
proof -
  assume n: "numbers t" and v: "isFloat64 (Credits c)" and f: "isFinite (Credits c)"
  have "isNumber (fadd (balance t (Operation c)) (Credits c))"
    using isNumber_balance[OF n] v f by (rule isNumber_fadd_finite)
  then show ?thesis using n by (simp add: addCredit_def numbers_def list_all_update)
qed

lemma numbers_foldl_addCredit:
  "numbers t \<Longrightarrow> list_all (\<lambda>c. isFloat64 (Credits c) \<and> isFinite (Credits c)) cs \<Longrightarrow>
   numbers (foldl addCredit t cs)"
  by (induction cs arbitrary: t) (simp_all add: numbers_addCredit)

lemma numbers_fetchCredits:
  assumes n: "numbers t"
    and c: "list_all (\<lambda>c. isFloat64 (Credits c) \<and> isFinite (Credits c))
              (fst (fetchCreditsHelper getJSON t (map fst (credits t))))"
  shows "numbers (fetchCredits getJSON t)"
proof -
  obtain cs t1 where f: "fetchCreditsHelper getJSON t (map fst (credits t)) = (cs, t1)"
    by (cases "fetchCreditsHelper getJSON t (map fst (credits t))")
  have "numbers t1"
    using numbers_fetchCreditsHelper[OF n, of getJSON "map fst (credits t)"] f by simp
  then have "numbers (foldl addCredit t1 cs)" using c f by (intro numbers_foldl_addCredit) simp_all
  then show ?thesis by (simp add: fetchCredits_def f)
qed

lemma numbers_NewThrottler: "numbers (NewThrottler svc hp)"
  by (simp add: numbers_def NewThrottler_def)

lemma numbers_SetUUID: "numbers t \<Longrightarrow> numbers (SetUUID u t)"
  by (simp add: numbers_def SetUUID_def)

lemma fetchCredits_balance:
  "balance (fetchCredits getJSON t) operation =
     foldl fadd (balance t operation)
       (map Credits (filter (\<lambda>c. Operation c = operation)
         (fst (fetchCreditsHelper getJSON t (map fst (credits t))))))"
proof -
  obtain cs t1 where f: "fetchCreditsHelper getJSON t (map fst (credits t)) = (cs, t1)"
    by (cases "fetchCreditsHelper getJSON t (map fst (credits t))")
  have "credits t1 = credits t"
    using fetchCreditsHelper_frame[of getJSON t "map fst (credits t)"] f by simp
  then have "balance t1 operation = balance t operation" by (rule balance_cong)
  then show ?thesis by (simp add: fetchCredits_def f balance_foldl_addCredit)
qed

lemma fetchCredits_dom:
  "dom (map_of (credits (fetchCredits getJSON t))) =
     dom (map_of (credits t)) \<union>
     Operation ` set (fst (fetchCreditsHelper getJSON t (map fst (credits t))))"
proof -
  obtain cs t1 where f: "fetchCreditsHelper getJSON t (map fst (credits t)) = (cs, t1)"
    by (cases "fetchCreditsHelper getJSON t (map fst (credits t))")
  have "credits t1 = credits t"
    using fetchCreditsHelper_frame[of getJSON t "map fst (credits t)"] f by simp
  then show ?thesis by (simp add: fetchCredits_def f dom_foldl_addCredit)
qed

text \<open>
  Claim C5, as amended. On every poll the credits returned for an operation are added to
  the balance the operation has at that moment, not stored in its place: starting from the
  old balance (zero for an operation not yet in the map), each credit returned for the
  operation is added with \<open>float64\<close> addition, in the order of the response, and the map
  gains exactly the operations returned. The same holds for the adding loop from any
  throttler state. No cap is applied.
\<close>

theorem fetchCredits_adds:
  "balance (fetchCredits getJSON t) operation =
     foldl fadd (balance t operation)
       (map Credits (filter (\<lambda>c. Operation c = operation)
         (fst (fetchCreditsHelper getJSON t (map fst (credits t)))))) \<and>
   dom (map_of (credits (fetchCredits getJSON t))) =
     dom (map_of (credits t)) \<union>
     Operation ` set (fst (fetchCreditsHelper getJSON t (map fst (credits t)))) \<and>
   balance (foldl addCredit t' newCredits) operation =
     foldl fadd (balance t' operation)
       (map Credits (filter (\<lambda>c. Operation c = operation) newCredits))"
  using fetchCredits_balance fetchCredits_dom balance_foldl_addCredit by blast

text \<open>A balance of 5 and 3 credits returned give 8.\<close>

theorem fetchCredits_adds_witness:
  "balance (fetchCredits (\<lambda>r. ([\<lparr>Operation = ''op'', Credits = f64 3\<rparr>], None))
      \<lparr>hostPort = ''h'', service = ''svc'', uuid = ''u'', credits = [(''op'', f64 5)],
       logged = [], sent = []\<rparr>) ''op'' = f64 8"
proof -
  let ?g = "\<lambda>r::request. ([\<lparr>Operation = ''op'', Credits = f64 3\<rparr>], None :: string option)"
  let ?t = "\<lparr>hostPort = ''h'', service = ''svc'', uuid = ''u'', credits = [(''op'', f64 5)],
             logged = [], sent = []\<rparr>"
  have "balance (fetchCredits ?g ?t) ''op'' =
     foldl fadd (balance ?t ''op'')
       (map Credits (filter (\<lambda>c. Operation c = ''op'')
         (fst (fetchCreditsHelper ?g ?t (map fst (credits ?t))))))"
    using fetchCredits_adds[of ?g ?t "''op''"] by (rule conjunct1)
  then show ?thesis
    by (simp add: fetchCreditsHelper_def FetchCredits_def balance_def f64_eval)
qed

text \<open>
  Claim C5, as stated, fails: no cap bounds the balances. When the balance of \<open>op\<close> is the
  largest finite \<open>float64\<close> and the agent returns that many credits for \<open>op\<close>, the balance
  after the poll is \<open>+Inf\<close>, which no finite number bounds.
\<close>

theorem fetchCredits_no_cap:
  "isFloat64 (Finite False 9007199254740991 971) \<and>
   balance (fetchCredits
       (\<lambda>r. ([\<lparr>Operation = ''op'', Credits = Finite False 9007199254740991 971\<rparr>], None))
       \<lparr>hostPort = ''h'', service = ''svc'', uuid = ''u'',
        credits = [(''op'', Finite False 9007199254740991 971)], logged = [], sent = []\<rparr>)
     ''op'' = Infinity False \<and>
   \<not> (\<exists>s m e.
        fle (balance (fetchCredits
               (\<lambda>r. ([\<lparr>Operation = ''op'', Credits = Finite False 9007199254740991 971\<rparr>], None))
               \<lparr>hostPort = ''h'', service = ''svc'', uuid = ''u'',
                credits = [(''op'', Finite False 9007199254740991 971)], logged = [], sent = []\<rparr>)
             ''op'')
          (Finite s m e))"
proof -
  let ?g = "\<lambda>r::request.
    ([\<lparr>Operation = ''op'', Credits = Finite False 9007199254740991 971\<rparr>], None :: string option)"
  let ?t = "\<lparr>hostPort = ''h'', service = ''svc'', uuid = ''u'',
        credits = [(''op'', Finite False 9007199254740991 971)], logged = [], sent = []\<rparr>"
  have b: "balance (fetchCredits ?g ?t) ''op'' = Infinity False"
    by (subst fetchCredits_balance)
      (simp add: fetchCreditsHelper_def FetchCredits_def balance_def f64_eval)
  show ?thesis unfolding b by simp
qed

section \<open>Baggage\<close>

text \<open>
  Claim C8. For every span context \<open>c\<close> whose baggage reference is \<open>nil\<close> or a map of the
  store (Go holds no other), with entries \<open>m\<close>, and for all strings \<open>key\<close> and \<open>value\<close>,
  \<open>WithBaggageItem\<close> returns a context whose baggage is a newly allocated map with the
  entries \<open>m\<close> extended by \<open>key \<mapsto> value\<close>; trace id, span id, parent id and the
  sampling-state reference are those of \<open>c\<close>; the debug id is empty whatever \<open>c\<close> carried.
  The map \<open>c\<close> refers to still has the entries \<open>m\<close> afterwards, as has every map allocated
  before, and no sampling state changes.
\<close>

theorem WithBaggageItem_frame:
  assumes "derefBaggage h (baggage c) = Some m"
  shows "WithBaggageItem h c key value =
           Some (\<lparr>traceID = traceID c, spanID = spanID c, parentID = parentID c,
                  baggage = Some (length (baggageMaps h)), debugID = [],
                  samplingState = samplingState c\<rparr>,
                 h\<lparr>baggageMaps := baggageMaps h @ [m(key \<mapsto> value)]\<rparr>) \<and>
         (\<forall>c' h'. WithBaggageItem h c key value = Some (c', h') \<longrightarrow>
            derefBaggage h' (baggage c') = Some (m(key \<mapsto> value)) \<and>
            traceID c' = traceID c \<and> spanID c' = spanID c \<and> parentID c' = parentID c \<and>
            samplingState c' = samplingState c \<and> debugID c' = [] \<and>
            baggage c' \<noteq> baggage c \<and>
            derefBaggage h' (baggage c) = Some m \<and>
            samplingStates h' = samplingStates h \<and>
            take (length (baggageMaps h)) (baggageMaps h') = baggageMaps h)"
proof -
  have eq: "WithBaggageItem h c key value =
           Some (\<lparr>traceID = traceID c, spanID = spanID c, parentID = parentID c,
                  baggage = Some (length (baggageMaps h)), debugID = [],
                  samplingState = samplingState c\<rparr>,
                 h\<lparr>baggageMaps := baggageMaps h @ [m(key \<mapsto> value)]\<rparr>)"
    using assms
    by (auto simp: WithBaggageItem_def derefBaggage_def split: option.splits if_splits)
  have fresh: "baggage c \<noteq> Some (length (baggageMaps h))"
    using assms by (auto simp: derefBaggage_def split: option.splits if_splits)
  have keep: "derefBaggage (h\<lparr>baggageMaps := baggageMaps h @ [m(key \<mapsto> value)]\<rparr>) (baggage c) = Some m"
    using assms by (auto simp: derefBaggage_def nth_append split: option.splits if_splits)
  show ?thesis
    unfolding eq using fresh keep by (auto simp: derefBaggage_def)
qed

text \<open>A context with one baggage entry and a debug id gains a second entry in a second map.\<close>

theorem WithBaggageItem_frame_witness:
  "derefBaggage \<lparr>samplingStates = [\<lparr>atomic_flags = 1\<rparr>], baggageMaps = [[''a'' \<mapsto> ''1'']]\<rparr>
     (baggage \<lparr>traceID = \<lparr>High = 0, Low = 1\<rparr>, spanID = 2, parentID = 0, baggage = Some 0,
               debugID = ''dbg'', samplingState = Some 0\<rparr>) = Some [''a'' \<mapsto> ''1''] \<and>
   WithBaggageItem \<lparr>samplingStates = [\<lparr>atomic_flags = 1\<rparr>], baggageMaps = [[''a'' \<mapsto> ''1'']]\<rparr>
     \<lparr>traceID = \<lparr>High = 0, Low = 1\<rparr>, spanID = 2, parentID = 0, baggage = Some 0,
      debugID = ''dbg'', samplingState = Some 0\<rparr> ''k'' ''v'' =
     Some (\<lparr>traceID = \<lparr>High = 0, Low = 1\<rparr>, spanID = 2, parentID = 0, baggage = Some 1,
            debugID = [], samplingState = Some 0\<rparr>,
           \<lparr>samplingStates = [\<lparr>atomic_flags = 1\<rparr>],
            baggageMaps = [[''a'' \<mapsto> ''1''], [''a'' \<mapsto> ''1'', ''k'' \<mapsto> ''v'']]\<rparr>)"
proof -
  let ?h = "\<lparr>samplingStates = [\<lparr>atomic_flags = 1\<rparr>], baggageMaps = [[''a'' \<mapsto> ''1'']]\<rparr>"
  let ?c = "\<lparr>traceID = \<lparr>High = 0, Low = 1\<rparr>, spanID = 2, parentID = 0, baggage = Some 0,
             debugID = ''dbg'', samplingState = Some 0\<rparr>"
  have d: "derefBaggage ?h (baggage ?c) = Some [''a'' \<mapsto> ''1'']"
    by (simp add: derefBaggage_def)
  have "WithBaggageItem ?h ?c ''k'' ''v'' =
           Some (\<lparr>traceID = traceID ?c, spanID = spanID ?c, parentID = parentID ?c,
                  baggage = Some (length (baggageMaps ?h)), debugID = [],
                  samplingState = samplingState ?c\<rparr>,
                 ?h\<lparr>baggageMaps := baggageMaps ?h @ [[''a'' \<mapsto> ''1'', ''k'' \<mapsto> ''v'']]\<rparr>)"
    using WithBaggageItem_frame[OF d, of "''k''" "''v''"] by (rule conjunct1)
  then show ?thesis using d by simp
qed

section \<open>Parsing a tracer state string\<close>

lemma or32_nat: "(b::nat) OR 32 = (if even (b div 32) then b + 32 else b)"
proof -
  have "b OR 32 = set_bit 5 b" by (simp add: set_bit_eq_or)
  also have "\<dots> = b + of_bool (\<not> bit b 5) * 2 ^ 5" by (rule set_bit_eq)
  finally show ?thesis by (simp add: bit_iff_odd)
qed

lemma div32_upper: "65 \<le> b \<Longrightarrow> b \<le> 90 \<Longrightarrow> (b::nat) div 32 = 2"
  by (rule div_nat_eqI) simp_all

lemma div32_lower: "97 \<le> b \<Longrightarrow> b \<le> 122 \<Longrightarrow> (b::nat) div 32 = 3"
  by (rule div_nat_eqI) simp_all

lemma or32_upper: "65 \<le> b \<Longrightarrow> b \<le> 90 \<Longrightarrow> (b::nat) OR 32 = b + 32"
  by (simp add: or32_nat div32_upper)

lemma or32_lower: "97 \<le> b \<Longrightarrow> b \<le> 122 \<Longrightarrow> (b::nat) OR 32 = b"
  by (simp add: or32_nat div32_lower)

lemma or32_letter:
  "97 \<le> (b::nat) OR 32 \<and> b OR 32 \<le> 122 \<longleftrightarrow> (65 \<le> b \<and> b \<le> 90) \<or> (97 \<le> b \<and> b \<le> 122)"
proof (cases "even (b div 32)")
  case True
  have "\<not> (97 \<le> b \<and> b \<le> 122)" using True div32_lower[of b] by auto
  then show ?thesis using True by (auto simp: or32_nat)
next
  case False
  have "\<not> (65 \<le> b \<and> b \<le> 90)" using False div32_upper[of b] by auto
  then show ?thesis using False by (auto simp: or32_nat)
qed

lemma digitVal_cases:
  "digitVal c =
     (if 48 \<le> (of_char c :: nat) \<and> (of_char c :: nat) \<le> 57 then Some (of_char c - 48)
      else if 97 \<le> (of_char c :: nat) \<and> (of_char c :: nat) \<le> 122 then Some (of_char c - 87)
      else if 65 \<le> (of_char c :: nat) \<and> (of_char c :: nat) \<le> 90 then Some (of_char c - 55)
      else None)"
proof -
  let ?b = "of_char c :: nat"
  consider (d) "48 \<le> ?b \<and> ?b \<le> 57" | (l) "97 \<le> ?b \<and> ?b \<le> 122" | (u) "65 \<le> ?b \<and> ?b \<le> 90"
    | (n) "\<not> (48 \<le> ?b \<and> ?b \<le> 57) \<and> \<not> (97 \<le> ?b \<and> ?b \<le> 122) \<and> \<not> (65 \<le> ?b \<and> ?b \<le> 90)"
    by blast
  then show ?thesis
  proof cases
    case d
    then show ?thesis by (simp add: digitVal_def Let_def)
  next
    case l
    then have "?b OR 32 = ?b" by (simp add: or32_lower)
    then show ?thesis using l by (simp add: digitVal_def Let_def)
  next
    case u
    then have "?b OR 32 = ?b + 32" by (simp add: or32_upper)
    then show ?thesis using u by (simp add: digitVal_def Let_def)
  next
    case n
    then have "\<not> (97 \<le> ?b OR 32 \<and> ?b OR 32 \<le> 122)" by (simp only: or32_letter) blast
    then show ?thesis using n by (simp add: digitVal_def Let_def)
  qed
qed

lemma isHexDigit_digitVal:
  "isHexDigit c \<longleftrightarrow> (\<exists>d. digitVal c = Some d \<and> d < 16)"
  unfolding digitVal_cases isHexDigit_def Let_def by auto

lemma isDecDigit_digitVal:
  "isDecDigit c \<longleftrightarrow> (\<exists>d. digitVal c = Some d \<and> d < 10)"
  unfolding digitVal_cases isDecDigit_def Let_def by auto

lemma isDecDigit_value: "isDecDigit c \<Longrightarrow> digitVal c = Some (of_char c - 48)"
  unfolding digitVal_cases isDecDigit_def Let_def by auto

lemma parseLoop_hex_iff:
  "(n + 1) * 16 ^ length s \<le> M + 1 \<Longrightarrow> M < 2 ^ 64 \<Longrightarrow>
   (snd (parseLoop 16 M n s) = None) = list_all isHexDigit s"
proof (induction s arbitrary: n)
  case Nil
  then show ?case by simp
next
  case (Cons c cs)
  show ?case
  proof (cases "isHexDigit c")
    case False
    then have "digitVal c = None \<or> (\<exists>d. digitVal c = Some d \<and> 16 \<le> d)"
      by (cases "digitVal c") (auto simp: isHexDigit_digitVal)
    then show ?thesis using False by auto
  next
    case True
    then obtain d where d: "digitVal c = Some d" "d < 16"
      by (auto simp: isHexDigit_digitVal)
    have k: "1 \<le> (16::nat) ^ length cs" by simp
    have "(n + 1) * 16 * 16 ^ length cs = (n + 1) * 16 ^ length (c # cs)"
      by (simp only: length_Cons power_Suc mult.assoc)
    then have b: "(n + 1) * 16 * 16 ^ length cs \<le> M + 1" using Cons.prems(1) by (simp only:)
    have "(n + 1) * 16 * 1 \<le> (n + 1) * 16 * 16 ^ length cs"
      by (rule mult_le_mono2[OF k])
    from this b have "(n + 1) * 16 * 1 \<le> M + 1" by (rule le_trans)
    then have b1: "(n + 1) * 16 \<le> M + 1" by simp
    then have n: "n < cutoff 16" using Cons.prems(2) by (simp add: cutoff_def)
    have m: "n * 16 + d \<le> M" "n * 16 + d < 2 ^ 64" "n * 16 < 2 ^ 64"
      using b1 d(2) Cons.prems(2) by simp_all
    have "(n * 16 + d + 1) * 16 ^ length cs \<le> (n + 1) * 16 * 16 ^ length cs"
      by (rule mult_le_mono1) (use d(2) in simp)
    from this b have "(n * 16 + d + 1) * 16 ^ length cs \<le> M + 1" by (rule le_trans)
    then have ih: "(snd (parseLoop 16 M (n * 16 + d) cs) = None) = list_all isHexDigit cs"
      using Cons.IH[of "n * 16 + d"] Cons.prems(2) by simp
    have "parseLoop 16 M n (c # cs) = parseLoop 16 M (n * 16 + d) cs"
      using d n m by (simp add: Let_def)
    then show ?thesis using True ih by simp
  qed
qed

lemma ParseUint_hex_iff:
  assumes "length s \<le> 16"
  shows "(snd (ParseUint s 16 64) = None) = (s \<noteq> [] \<and> list_all isHexDigit s)"
proof (cases "s = []")
  case True
  then show ?thesis by (simp add: ParseUint_def)
next
  case False
  have "(16::nat) ^ length s \<le> 16 ^ 16" using assms by (intro power_increasing) simp_all
  then have "(0 + 1) * 16 ^ length s \<le> (18446744073709551615::nat) + 1" by simp
  then have "(snd (parseLoop 16 18446744073709551615 0 s) = None) = list_all isHexDigit s"
    by (rule parseLoop_hex_iff) simp
  moreover obtain v e where "parseLoop 16 18446744073709551615 0 s = (v, e)"
    by (cases "parseLoop 16 18446744073709551615 0 s")
  ultimately show ?thesis using False
    by (cases e) (simp_all add: ParseUint_def)
qed

lemma SpanIDFromString_iff: "(snd (SpanIDFromString s) = None) = hexField 16 s"
proof (cases "length s \<le> 16")
  case True
  obtain v e where p: "ParseUint s 16 64 = (v, e)" by (cases "ParseUint s 16 64")
  have "snd (SpanIDFromString s) = e"
    using True by (cases e) (simp_all add: SpanIDFromString_def p)
  moreover have "(e = None) = (s \<noteq> [] \<and> list_all isHexDigit s)"
    using ParseUint_hex_iff[OF True] p by simp
  ultimately show ?thesis using True by (simp add: hexField_def)
next
  case False
  then show ?thesis by (simp add: SpanIDFromString_def hexField_def)
qed

lemma TraceIDFromString_iff: "(snd (TraceIDFromString s) = None) = hexField 32 s"
proof -
  consider (long) "32 < length s" | (mid) "16 < length s" "length s \<le> 32" | (short) "length s \<le> 16"
    by linarith
  then show ?thesis
  proof cases
    case long
    then show ?thesis by (simp add: TraceIDFromString_def hexField_def)
  next
    case short
    obtain v e where p: "ParseUint s 16 64 = (v, e)" by (cases "ParseUint s 16 64")
    have "snd (TraceIDFromString s) = e"
      using short by (cases e) (simp_all add: TraceIDFromString_def p)
    moreover have "(e = None) = (s \<noteq> [] \<and> list_all isHexDigit s)"
      using ParseUint_hex_iff[OF short] p by simp
    ultimately show ?thesis using short by (simp add: hexField_def)
  next
    case mid
    let ?hi = "take (length s - 16) s" and ?lo = "drop (length s - 16) s"
    have lh: "length ?hi \<le> 16" and nh: "?hi \<noteq> []" and ll: "length ?lo \<le> 16"
      and nl: "?lo \<noteq> []"
      using mid by auto
    have "list_all isHexDigit (?hi @ ?lo) = (list_all isHexDigit ?hi \<and> list_all isHexDigit ?lo)"
      by (rule list_all_append)
    then have s: "list_all isHexDigit s = (list_all isHexDigit ?hi \<and> list_all isHexDigit ?lo)"
      by (simp only: append_take_drop_id)
    obtain vh eh where ph: "ParseUint ?hi 16 64 = (vh, eh)" by (cases "ParseUint ?hi 16 64")
    obtain vl el where pl: "ParseUint ?lo 16 64 = (vl, el)" by (cases "ParseUint ?lo 16 64")
    have h: "(eh = None) = list_all isHexDigit ?hi"
      using ParseUint_hex_iff[OF lh] nh ph by simp
    have l: "(el = None) = list_all isHexDigit ?lo"
      using ParseUint_hex_iff[OF ll] nl pl by simp
    have "TraceIDFromString s =
        (case eh of Some e \<Rightarrow> (zeroTraceID, Some e)
         | None \<Rightarrow> (case el of Some e \<Rightarrow> (zeroTraceID, Some e)
                    | None \<Rightarrow> (\<lparr>High = of_nat vh, Low = of_nat vl\<rparr>, None)))"
      using mid unfolding TraceIDFromString_def Let_def ph pl
      by (simp split: option.splits)
    then have "(snd (TraceIDFromString s) = None) = (eh = None \<and> el = None)"
      by (cases eh; cases el) simp_all
    moreover have "s \<noteq> []" using mid by auto
    ultimately show ?thesis using mid h l s by (simp add: hexField_def)
  qed
qed

lemma foldl_dec_ge: "(n::nat) \<le> foldl (\<lambda>n c. 10 * n + (of_char c - 48)) n s"
proof (induction s arbitrary: n)
  case Nil
  then show ?case by simp
next
  case (Cons c cs)
  have "n \<le> 10 * n + (of_char c - 48)" by simp
  also have "\<dots> \<le> foldl (\<lambda>n c. 10 * n + (of_char c - 48)) (10 * n + (of_char c - 48)) cs"
    by (rule Cons.IH)
  finally show ?case by simp
qed

lemma parseLoop_dec_iff:
  "n \<le> 255 \<Longrightarrow>
   (snd (parseLoop 10 255 n s) = None) =
     (list_all isDecDigit s \<and> foldl (\<lambda>n c. 10 * n + (of_char c - 48)) n s \<le> (255::nat))"
proof (induction s arbitrary: n)
  case Nil
  then show ?case by simp
next
  case (Cons c cs)
  show ?case
  proof (cases "isDecDigit c")
    case False
    then have "digitVal c = None \<or> (\<exists>d. digitVal c = Some d \<and> 10 \<le> d)"
      by (cases "digitVal c") (auto simp: isDecDigit_digitVal)
    then show ?thesis using False by auto
  next
    case True
    let ?d = "of_char c - 48 :: nat"
    let ?n1 = "10 * n + ?d"
    have d: "digitVal c = Some ?d" by (rule isDecDigit_value[OF True])
    have d10: "?d < 10" using True d by (auto simp: isDecDigit_digitVal)
    have n: "n < cutoff 10" using Cons.prems by (simp add: cutoff_def)
    have m: "n * 10 < 2 ^ 64" "n * 10 + ?d < 2 ^ 64" using Cons.prems d10 by simp_all
    show ?thesis
    proof (cases "?n1 \<le> 255")
      case le: True
      have "parseLoop 10 255 n (c # cs) = parseLoop 10 255 ?n1 cs"
        using d d10 n m le by (simp add: Let_def mult.commute)
      then show ?thesis using Cons.IH[OF le] True by simp
    next
      case gt: False
      have "parseLoop 10 255 n (c # cs) = (255, Some ErrRange)"
        using d d10 n m gt by (simp add: Let_def mult.commute)
      moreover have "\<not> foldl (\<lambda>n c. 10 * n + (of_char c - 48)) ?n1 cs \<le> 255"
        using foldl_dec_ge[of ?n1 cs] gt by linarith
      ultimately show ?thesis by simp
    qed
  qed
qed

lemma ParseUint_flags_iff: "(snd (ParseUint s 10 8) = None) = flagsField s"
proof (cases "s = []")
  case True
  then show ?thesis by (simp add: ParseUint_def flagsField_def)
next
  case False
  have "(snd (parseLoop 10 255 0 s) = None) =
     (list_all isDecDigit s \<and> foldl (\<lambda>n c. 10 * n + (of_char c - 48)) 0 s \<le> (255::nat))"
    by (rule parseLoop_dec_iff) simp
  moreover obtain v e where "parseLoop 10 255 0 s = (v, e)"
    by (cases "parseLoop 10 255 0 s")
  ultimately show ?thesis using False
    by (cases e) (simp_all add: ParseUint_def flagsField_def decValue_def)
qed

lemma ContextFromString_unfold:
  assumes "value \<noteq> []" and "length (Split value (CHR '':'')) = 4"
    and "TraceIDFromString (Split value (CHR '':'') ! 0) = (t, et)"
    and "SpanIDFromString (Split value (CHR '':'') ! 1) = (sid, es)"
    and "SpanIDFromString (Split value (CHR '':'') ! 2) = (pid, ep)"
    and "ParseUint (Split value (CHR '':'') ! 3) 10 8 = (fl, ef)"
  shows "ContextFromString h value =
     (if et = None \<and> es = None \<and> ep = None \<and> ef = None then
        ((\<lparr>traceID = t, spanID = sid, parentID = pid, baggage = None, debugID = [],
           samplingState = Some (length (samplingStates h))\<rparr>, None),
         h\<lparr>samplingStates := samplingStates h @ [setFlags (of_nat fl) \<lparr>atomic_flags = 0\<rparr>]\<rparr>)
      else
        ((emptyContext,
          if et \<noteq> None then et else if es \<noteq> None then es else if ep \<noteq> None then ep else ef),
         h))"
  using assms(1,2) unfolding ContextFromString_def Let_def assms(3-6)
  by (cases et; cases es; cases ep; cases ef) simp_all

text \<open>
  Claim C6. \<open>ContextFromString\<close> returns an error exactly when the value is malformed:
  empty, or not exactly four parts between colons, or a trace part that is not 1 to 32
  hexadecimal digits, or a span or parent part that is not 1 to 16 hexadecimal digits, or
  a flags part that is not a decimal number of at most 255. With every error it returns
  the empty span context and allocates nothing. The empty value gives
  \<open>errEmptyTracerStateString\<close>, a wrong number of parts
  \<open>errMalformedTracerStateString\<close>.
\<close>

theorem ContextFromString_error_iff_malformed:
  "(snd (fst (ContextFromString h value)) \<noteq> None) = malformed value \<and>
   (snd (fst (ContextFromString h value)) \<noteq> None \<longrightarrow>
      fst (fst (ContextFromString h value)) = emptyContext \<and>
      snd (ContextFromString h value) = h) \<and>
   (value = [] \<longrightarrow> snd (fst (ContextFromString h value)) = Some errEmptyTracerStateString) \<and>
   (value \<noteq> [] \<and> length (Split value (CHR '':'')) \<noteq> 4 \<longrightarrow>
      snd (fst (ContextFromString h value)) = Some errMalformedTracerStateString)"
proof (cases "value = [] \<or> length (Split value (CHR '':'')) \<noteq> 4")
  case True
  then show ?thesis by (auto simp: ContextFromString_def malformed_def Let_def)
next
  case False
  then have ne: "value \<noteq> []" and four: "length (Split value (CHR '':'')) = 4" by simp_all
  let ?p = "Split value (CHR '':'')"
  obtain t et where pt: "TraceIDFromString (?p ! 0) = (t, et)"
    by (cases "TraceIDFromString (?p ! 0)")
  obtain sid es where ps: "SpanIDFromString (?p ! 1) = (sid, es)"
    by (cases "SpanIDFromString (?p ! 1)")
  obtain pid ep where pp: "SpanIDFromString (?p ! 2) = (pid, ep)"
    by (cases "SpanIDFromString (?p ! 2)")
  obtain fl ef where pf: "ParseUint (?p ! 3) 10 8 = (fl, ef)"
    by (cases "ParseUint (?p ! 3) 10 8")
  note u = ContextFromString_unfold[OF ne four pt ps pp pf, of h]
  have a: "(et = None) = hexField 32 (?p ! 0)" using TraceIDFromString_iff[of "?p ! 0"] pt by simp
  have b: "(es = None) = hexField 16 (?p ! 1)" using SpanIDFromString_iff[of "?p ! 1"] ps by simp
  have c: "(ep = None) = hexField 16 (?p ! 2)" using SpanIDFromString_iff[of "?p ! 2"] pp by simp
  have d: "(ef = None) = flagsField (?p ! 3)" using ParseUint_flags_iff[of "?p ! 3"] pf by simp
  have m: "malformed value = (\<not> (et = None \<and> es = None \<and> ep = None \<and> ef = None))"
    using ne four by (simp add: malformed_def a b c d)
  show ?thesis
  proof (cases "et = None \<and> es = None \<and> ep = None \<and> ef = None")
    case True
    then show ?thesis using m ne four by (simp add: u)
  next
    case False
    then show ?thesis using m ne four by (auto simp: u)
  qed
qed

text \<open>
  A value with a letter as flags is malformed and rejected; with flags \<open>1\<close> it is accepted;
  the empty value and a value of three parts give their own errors.
\<close>

theorem ContextFromString_error_iff_malformed_witness:
  "malformed ''1:2:3:x'' \<and>
   ContextFromString \<lparr>samplingStates = [], baggageMaps = []\<rparr> ''1:2:3:x'' =
     ((emptyContext, Some (NumError ''ParseUint'' ''x'' ErrSyntax)),
      \<lparr>samplingStates = [], baggageMaps = []\<rparr>) \<and>
   \<not> malformed ''1:2:3:1'' \<and>
   snd (fst (ContextFromString \<lparr>samplingStates = [], baggageMaps = []\<rparr> ''1:2:3:1'')) = None \<and>
   snd (fst (ContextFromString \<lparr>samplingStates = [], baggageMaps = []\<rparr> [])) =
     Some errEmptyTracerStateString \<and>
   length (Split ''1:2:3'' (CHR '':'')) = 3 \<and>
   ContextFromString \<lparr>samplingStates = [], baggageMaps = []\<rparr> ''1:2:3'' =
     ((emptyContext, Some errMalformedTracerStateString),
      \<lparr>samplingStates = [], baggageMaps = []\<rparr>)"
proof -
  let ?h = "\<lparr>samplingStates = [], baggageMaps = []\<rparr>"
  have e: "fst (ContextFromString ?h ''1:2:3:x'') =
     (emptyContext, Some (NumError ''ParseUint'' ''x'' ErrSyntax))"
    by (simp add: ContextFromString_def TraceIDFromString_def SpanIDFromString_def ParseUint_def
        digitVal_def cutoff_def)
  then have ne: "snd (fst (ContextFromString ?h ''1:2:3:x'')) \<noteq> None" by simp
  then have m1: "malformed ''1:2:3:x''"
    using ContextFromString_error_iff_malformed[of ?h "''1:2:3:x''"] by blast
  have "snd (ContextFromString ?h ''1:2:3:x'') = ?h"
    using ContextFromString_error_iff_malformed[of ?h "''1:2:3:x''"] ne by blast
  with e have e': "ContextFromString ?h ''1:2:3:x'' =
     ((emptyContext, Some (NumError ''ParseUint'' ''x'' ErrSyntax)), ?h)"
    by (simp add: prod_eq_iff)
  have s: "snd (fst (ContextFromString ?h ''1:2:3:1'')) = None"
    by (simp add: ContextFromString_def TraceIDFromString_def SpanIDFromString_def ParseUint_def
        digitVal_def cutoff_def)
  then have m2: "\<not> malformed ''1:2:3:1''"
    using ContextFromString_error_iff_malformed[of ?h "''1:2:3:1''"] by blast
  have em: "snd (fst (ContextFromString ?h [])) = Some errEmptyTracerStateString"
    using ContextFromString_error_iff_malformed[of ?h "[]"] by blast
  have l3: "length (Split ''1:2:3'' (CHR '':'')) = 3" by simp
  then have p: "''1:2:3'' \<noteq> [] \<and> length (Split ''1:2:3'' (CHR '':'')) \<noteq> 4" by simp
  have m3: "snd (fst (ContextFromString ?h ''1:2:3'')) = Some errMalformedTracerStateString"
    using ContextFromString_error_iff_malformed[of ?h "''1:2:3''"] p by blast
  then have "fst (fst (ContextFromString ?h ''1:2:3'')) = emptyContext \<and>
      snd (ContextFromString ?h ''1:2:3'') = ?h"
    using ContextFromString_error_iff_malformed[of ?h "''1:2:3''"] by simp
  with m3 have e3: "ContextFromString ?h ''1:2:3'' =
     ((emptyContext, Some errMalformedTracerStateString), ?h)"
    by (simp add: prod_eq_iff)
  from e' m1 s m2 em l3 e3 show ?thesis by blast
qed

section \<open>The string form of a span context\<close>

lemma Split_no_sep: "sep \<notin> set a \<Longrightarrow> Split a sep = [a]"
  by (induction a) auto

lemma Split_append_sep:
  "sep \<notin> set a \<Longrightarrow> Split (a @ sep # rest) sep = a # Split rest sep"
  by (induction a) auto

lemma colon_not_hex: "CHR '':'' \<notin> set ''0123456789abcdef''"
  by simp

lemma colon_notin_fmt_x: "CHR '':'' \<notin> set (fmt_x u)"
  using set_fmt_x[of u] colon_not_hex by blast

lemma colon_notin_fmt_016x: "CHR '':'' \<notin> set (fmt_016x u)"
  using set_fmt_016x[of u] colon_not_hex by blast

lemma colon_notin_TraceID_String: "CHR '':'' \<notin> set (TraceID_String t)"
  by (simp add: TraceID_String_def colon_notin_fmt_x colon_notin_fmt_016x)

lemma SpanIDFromString_fmt_x: "SpanIDFromString (fmt_x (unat (s :: 64 word))) = (s, None)"
  using length_fmt_x_64[OF unat_lt_64, of s]
  by (simp add: SpanIDFromString_def ParseUint_fmt_x[OF unat_lt_64])

lemma Split_four:
  assumes "CHR '':'' \<notin> set a" "CHR '':'' \<notin> set b" "CHR '':'' \<notin> set c" "CHR '':'' \<notin> set d"
  shows "Split (a @ '':'' @ b @ '':'' @ c @ '':'' @ d) (CHR '':'') = [a, b, c, d]"
  using assms by (simp add: Split_append_sep Split_no_sep)

lemma SpanContext_String_eq:
  "derefState h (samplingState c) = Some st \<Longrightarrow>
   SpanContext_String h c =
     Some (TraceID_String (traceID c) @ '':'' @ fmt_x (unat (spanID c)) @ '':'' @
           fmt_x (unat (parentID c)) @ '':'' @ fmt_x_int32 (Load st))"
  by (simp add: SpanContext_String_def TraceID_String_def)

lemma small_flags_digit:
  "\<forall>n \<in> set [0..<10]. fmt_x n = [digits ! n] \<and> digits ! n \<noteq> CHR '':'' \<and>
      ParseUint [digits ! n] 10 8 = (n, None)"
  by (simp add: upt_rec fmt_x_def formatBits.simps digits_def ParseUint_def digitVal_def cutoff_def)

text \<open>
  \<open>String\<close> writes the flags with the verb \<open>%x\<close>, in hexadecimal, and
  \<open>ContextFromString\<close> reads them in base 10. Up to 9 the two notations agree, and the
  string of a context parses back to its trace id, span id, parent id and flags.
\<close>

lemma ContextFromString_String_flags_below_10:
  assumes st: "derefState h (samplingState c) = Some st"
    and fl: "0 \<le> sint (Load st)" "sint (Load st) < 10"
    and s: "SpanContext_String h c = Some str"
  shows "ContextFromString h' str =
           ((\<lparr>traceID = traceID c, spanID = spanID c, parentID = parentID c, baggage = None,
              debugID = [], samplingState = Some (length (samplingStates h'))\<rparr>, None),
            h'\<lparr>samplingStates := samplingStates h' @ [\<lparr>atomic_flags = Load st\<rparr>]\<rparr>)"
proof -
  let ?n = "nat (sint (Load st))"
  have n: "?n < 10" using fl by simp
  then have nset: "?n \<in> set [0..<10]" by simp
  have f: "fmt_x_int32 (Load st) = [digits ! ?n]"
    using fl small_flags_digit nset by (simp add: fmt_x_int32_def)
  have "digits ! ?n \<noteq> CHR '':''" using small_flags_digit nset by blast
  then have fc: "CHR '':'' \<notin> set [digits ! ?n]" by auto
  have fp: "ParseUint [digits ! ?n] 10 8 = (?n, None)" using small_flags_digit nset by blast
  have fb: "(of_nat ?n :: 32 word) = Load st" using fl by simp
  have str: "str = TraceID_String (traceID c) @ '':'' @ fmt_x (unat (spanID c)) @ '':'' @
           fmt_x (unat (parentID c)) @ '':'' @ [digits ! ?n]"
    using SpanContext_String_eq[OF st] s f by simp
  have parts: "Split str (CHR '':'') =
      [TraceID_String (traceID c), fmt_x (unat (spanID c)), fmt_x (unat (parentID c)), [digits ! ?n]]"
    unfolding str
    by (rule Split_four) (simp_all only: colon_notin_TraceID_String colon_notin_fmt_x fc not_False_eq_True)
  have ne: "str \<noteq> []" using str by simp
  have u8: "(ucast (of_nat ?n :: 8 word) :: 32 word) = Load st"
  proof -
    have "unat (ucast (of_nat ?n :: 8 word) :: 32 word) = unat (of_nat ?n :: 32 word)"
      using n by (simp add: unsigned_ucast_eq unat_of_nat take_bit_eq_mod)
    then have "(ucast (of_nat ?n :: 8 word) :: 32 word) = of_nat ?n"
      by (simp only: word_unat_eq_iff)
    then show ?thesis using fb by simp
  qed
  show ?thesis
    using ne
    by (simp add: ContextFromString_def parts TraceIDFromString_String SpanIDFromString_fmt_x fp
        setFlags_def Store_def u8)
qed


text \<open>
  Claim C1 says that the fourth field is decimal and that \<open>ContextFromString\<close> returns the
  context from its string for every flags byte. The code evaluated at two contexts: with the
  flags \<open>sampled|debug|firehose = 11\<close> the string is \<open>1:1:0:b\<close>, which \<open>ContextFromString\<close>
  rejects with a syntax error and the empty context; with the flags byte 16 the string is
  \<open>1:1:0:10\<close>, which parses without error to a context with the flags 10.
\<close>

theorem String_flags_hex_parsed_decimal:
  "SpanContext_String \<lparr>samplingStates = [\<lparr>atomic_flags = 11\<rparr>], baggageMaps = []\<rparr>
     \<lparr>traceID = \<lparr>High = 0, Low = 1\<rparr>, spanID = 1, parentID = 0, baggage = None, debugID = [],
      samplingState = Some 0\<rparr> = Some ''1:1:0:b'' \<and>
   ContextFromString \<lparr>samplingStates = [\<lparr>atomic_flags = 11\<rparr>], baggageMaps = []\<rparr> ''1:1:0:b'' =
     ((emptyContext, Some (NumError ''ParseUint'' ''b'' ErrSyntax)),
      \<lparr>samplingStates = [\<lparr>atomic_flags = 11\<rparr>], baggageMaps = []\<rparr>) \<and>
   SpanContext_String \<lparr>samplingStates = [\<lparr>atomic_flags = 16\<rparr>], baggageMaps = []\<rparr>
     \<lparr>traceID = \<lparr>High = 0, Low = 1\<rparr>, spanID = 1, parentID = 0, baggage = None, debugID = [],
      samplingState = Some 0\<rparr> = Some ''1:1:0:10'' \<and>
   ContextFromString \<lparr>samplingStates = [\<lparr>atomic_flags = 16\<rparr>], baggageMaps = []\<rparr> ''1:1:0:10'' =
     ((\<lparr>traceID = \<lparr>High = 0, Low = 1\<rparr>, spanID = 1, parentID = 0, baggage = None, debugID = [],
        samplingState = Some 1\<rparr>, None),
      \<lparr>samplingStates = [\<lparr>atomic_flags = 16\<rparr>, \<lparr>atomic_flags = 10\<rparr>], baggageMaps = []\<rparr>)"
proof -
  have a: "SpanContext_String \<lparr>samplingStates = [\<lparr>atomic_flags = 11\<rparr>], baggageMaps = []\<rparr>
     \<lparr>traceID = \<lparr>High = 0, Low = 1\<rparr>, spanID = 1, parentID = 0, baggage = None, debugID = [],
      samplingState = Some 0\<rparr> = Some ''1:1:0:b''"
    by (simp add: SpanContext_String_def derefState_def fmt_x_def fmt_x_int32_def Load_def
        formatBits.simps digits_def)
  have b: "ContextFromString \<lparr>samplingStates = [\<lparr>atomic_flags = 11\<rparr>], baggageMaps = []\<rparr> ''1:1:0:b'' =
     ((emptyContext, Some (NumError ''ParseUint'' ''b'' ErrSyntax)),
      \<lparr>samplingStates = [\<lparr>atomic_flags = 11\<rparr>], baggageMaps = []\<rparr>)"
    by (simp add: ContextFromString_def TraceIDFromString_def SpanIDFromString_def ParseUint_def
        digitVal_def cutoff_def)
  have c: "SpanContext_String \<lparr>samplingStates = [\<lparr>atomic_flags = 16\<rparr>], baggageMaps = []\<rparr>
     \<lparr>traceID = \<lparr>High = 0, Low = 1\<rparr>, spanID = 1, parentID = 0, baggage = None, debugID = [],
      samplingState = Some 0\<rparr> = Some ''1:1:0:10''"
    by (simp add: SpanContext_String_def derefState_def fmt_x_def fmt_x_int32_def Load_def
        formatBits.simps digits_def)
  have d: "ContextFromString \<lparr>samplingStates = [\<lparr>atomic_flags = 16\<rparr>], baggageMaps = []\<rparr> ''1:1:0:10'' =
     ((\<lparr>traceID = \<lparr>High = 0, Low = 1\<rparr>, spanID = 1, parentID = 0, baggage = None, debugID = [],
        samplingState = Some 1\<rparr>, None),
      \<lparr>samplingStates = [\<lparr>atomic_flags = 16\<rparr>, \<lparr>atomic_flags = 10\<rparr>], baggageMaps = []\<rparr>)"
    by (simp add: ContextFromString_def TraceIDFromString_def SpanIDFromString_def ParseUint_def
        digitVal_def cutoff_def setFlags_def Store_def)
  from a b c d show ?thesis by blast
qed

section \<open>The B3 propagator\<close>

lemma update_new_key: "k \<notin> fst ` set al \<Longrightarrow> AList.update k v al = al @ [(k, v)]"
  by (induction al) auto

lemma ToLower_b3keys: "\<forall>k \<in> set b3keys. ToLower ul k = k"
  by (simp add: b3keys_def ToLower_def isASCII_def toLowerByte_def)

lemma b3handler_lower: "ToLower ul k = ToLower ul k' \<Longrightarrow> b3handler ul k v = b3handler ul k' v"
  by (rule ext) (simp add: b3handler_def)

lemma b3handler_other:
  "ToLower ul k \<notin> set b3keys \<Longrightarrow> b3handler ul k v s = (s, None)"
  by (simp add: b3handler_def b3keys_def)

lemma b3handler_traceid:
  "ToLower ul k = ''x-b3-traceid'' \<Longrightarrow>
   b3handler ul k v s = (s\<lparr>var_traceID := fst (TraceIDFromString v)\<rparr>, snd (TraceIDFromString v))"
  by (simp add: b3handler_def split: prod.splits)

lemma b3handler_parent:
  "ToLower ul k = ''x-b3-parentspanid'' \<Longrightarrow>
   b3handler ul k v s =
     (s\<lparr>var_parentID := of_nat (fst (ParseUint v 16 64))\<rparr>, snd (ParseUint v 16 64))"
  by (simp add: b3handler_def split: prod.splits)

lemma b3handler_spanid:
  "ToLower ul k = ''x-b3-spanid'' \<Longrightarrow>
   b3handler ul k v s =
     (s\<lparr>var_spanID := of_nat (fst (ParseUint v 16 64))\<rparr>, snd (ParseUint v 16 64))"
  by (simp add: b3handler_def split: prod.splits)

lemma b3handler_sampled:
  "ToLower ul k = ''x-b3-sampled'' \<Longrightarrow>
   b3handler ul k v s = (s\<lparr>var_sampled := var_sampled s \<or> v = ''1'' \<or> v = ''true''\<rparr>, None)"
  by (cases "v = ''1'' \<or> v = ''true''") (auto simp: b3handler_def)

lemma b3keys_cases:
  obtains (trace) "k = ''x-b3-traceid''" | (parent) "k = ''x-b3-parentspanid''"
  | (span) "k = ''x-b3-spanid''" | (sampled) "k = ''x-b3-sampled''" | (other) "k \<notin> set b3keys"
  by (auto simp: b3keys_def)

lemma ForeachKey_b3_sampled:
  "ForeachKey (b3handler ul) kvs s = (s', None) \<Longrightarrow>
   var_sampled s' =
     (var_sampled s \<or> (\<exists>(k, v) \<in> set kvs. ToLower ul k = ''x-b3-sampled'' \<and> (v = ''1'' \<or> v = ''true'')))"
proof (induction kvs arbitrary: s)
  case Nil
  then show ?case by simp
next
  case (Cons kv kvs)
  obtain k v where kv: "kv = (k, v)" by (cases kv)
  obtain s1 e1 where h: "b3handler ul k v s = (s1, e1)" by (cases "b3handler ul k v s")
  have e1: "e1 = None" using Cons.prems kv h by (cases e1) simp_all
  then have rest: "ForeachKey (b3handler ul) kvs s1 = (s', None)" using Cons.prems kv h by simp
  have s1: "var_sampled s1 = (var_sampled s \<or> (ToLower ul k = ''x-b3-sampled'' \<and> (v = ''1'' \<or> v = ''true'')))"
  proof (cases "ToLower ul k" rule: b3keys_cases)
    case trace
    then show ?thesis using h by (auto simp: b3handler_traceid)
  next
    case parent
    then show ?thesis using h by (auto simp: b3handler_parent)
  next
    case span
    then show ?thesis using h by (auto simp: b3handler_spanid)
  next
    case sampled
    then show ?thesis using h by (auto simp: b3handler_sampled)
  next
    case other
    then show ?thesis using h by (auto simp: b3handler_other b3keys_def)
  qed
  show ?case using Cons.IH[OF rest] s1 kv by auto
qed

lemma ForeachKey_b3_good:
  assumes ts: "TraceIDFromString ts = (t, None)"
    and ss: "ParseUint ss 16 64 = (ns, None)"
    and ps: "ParseUint ps 16 64 = (np, None)"
    and good: "\<forall>(k, v) \<in> set kvs.
                 (ToLower ul k = ''x-b3-traceid'' \<longrightarrow> v = ts) \<and>
                 (ToLower ul k = ''x-b3-spanid'' \<longrightarrow> v = ss) \<and>
                 (ToLower ul k = ''x-b3-parentspanid'' \<longrightarrow> v = ps)"
  shows "ForeachKey (b3handler ul) kvs s =
     (\<lparr>var_traceID = (if ''x-b3-traceid'' \<in> ToLower ul ` fst ` set kvs then t else var_traceID s),
       var_spanID = (if ''x-b3-spanid'' \<in> ToLower ul ` fst ` set kvs then of_nat ns else var_spanID s),
       var_parentID =
         (if ''x-b3-parentspanid'' \<in> ToLower ul ` fst ` set kvs then of_nat np else var_parentID s),
       var_sampled =
         (var_sampled s \<or>
          (\<exists>(k, v) \<in> set kvs. ToLower ul k = ''x-b3-sampled'' \<and> (v = ''1'' \<or> v = ''true'')))\<rparr>,
      None)"
  using good
proof (induction kvs arbitrary: s)
  case Nil
  then show ?case by simp
next
  case (Cons kv kvs)
  obtain k v where kv: "kv = (k, v)" by (cases kv)
  have g: "\<forall>(k, v) \<in> set kvs.
                 (ToLower ul k = ''x-b3-traceid'' \<longrightarrow> v = ts) \<and>
                 (ToLower ul k = ''x-b3-spanid'' \<longrightarrow> v = ss) \<and>
                 (ToLower ul k = ''x-b3-parentspanid'' \<longrightarrow> v = ps)"
    using Cons.prems by simp
  note ih = Cons.IH[OF g]
  show ?case
  proof (cases "ToLower ul k" rule: b3keys_cases)
    case trace
    then have "v = ts" using Cons.prems kv by simp
    then have "b3handler ul k v s = (s\<lparr>var_traceID := t\<rparr>, None)"
      using trace ts by (simp add: b3handler_traceid)
    then show ?thesis using trace kv by (simp add: ih)
  next
    case parent
    then have "v = ps" using Cons.prems kv by simp
    then have "b3handler ul k v s = (s\<lparr>var_parentID := of_nat np\<rparr>, None)"
      using parent ps by (simp add: b3handler_parent)
    then show ?thesis using parent kv by (simp add: ih)
  next
    case span
    then have "v = ss" using Cons.prems kv by simp
    then have "b3handler ul k v s = (s\<lparr>var_spanID := of_nat ns\<rparr>, None)"
      using span ss by (simp add: b3handler_spanid)
    then show ?thesis using span kv by (simp add: ih)
  next
    case sampled
    then have "b3handler ul k v s = (s\<lparr>var_sampled := var_sampled s \<or> v = ''1'' \<or> v = ''true''\<rparr>, None)"
      by (simp add: b3handler_sampled)
    then show ?thesis using sampled kv by (auto simp add: ih)
  next
    case other
    then have "b3handler ul k v s = (s, None)" by (simp add: b3handler_other)
    then show ?thesis using other kv by (auto simp add: ih b3keys_def)
  qed
qed

lemma ForeachKey_b3_lower:
  "map (lowerKey ul) kvs = map (lowerKey ul) kvs' \<Longrightarrow>
   ForeachKey (b3handler ul) kvs s = ForeachKey (b3handler ul) kvs' s"
proof (induction kvs arbitrary: kvs' s)
  case Nil
  then show ?case by simp
next
  case (Cons kv kvs)
  then obtain kv' kvs1 where k': "kvs' = kv' # kvs1" by (cases kvs') auto
  obtain k v where kv: "kv = (k, v)" by (cases kv)
  obtain k' v' where kv': "kv' = (k', v')" by (cases kv')
  have r: "map (lowerKey ul) kvs = map (lowerKey ul) kvs1" using Cons.prems k' by simp
  have "lowerKey ul kv = lowerKey ul kv'" using Cons.prems k' by simp
  then have e: "ToLower ul k = ToLower ul k'" "v = v'"
    using kv kv' by (simp_all add: lowerKey_def)
  have "b3handler ul k v = b3handler ul k' v'" using e by (simp add: b3handler_lower[of ul k k'])
  then show ?case using Cons.IH[OF r] k' kv kv' by simp
qed

lemma FormatUint16_fmt_x: "FormatUint16 u = fmt_x u"
  by (simp add: FormatUint16_def fmt_x_def)

lemma b3key_not_in_carrier:
  assumes "\<forall>kv \<in> set m. ToLower ul (fst kv) \<notin> set b3keys" and "k \<in> set b3keys"
  shows "k \<notin> fst ` set m"
proof
  assume "k \<in> fst ` set m"
  then obtain kv where kv: "kv \<in> set m" "fst kv = k" by auto
  have "ToLower ul k = k" using ToLower_b3keys assms(2) by blast
  then show False using assms kv by auto
qed

lemma Inject_TextMap:
  assumes "IsSampled h sc = Some b" and "\<forall>kv \<in> set m. ToLower ul (fst kv) \<notin> set b3keys"
  shows "Inject h sc (TextMapCarrier m) = Some (None, TextMapCarrier (m @ injected sc b))"
proof -
  have k: "''x-b3-traceid'' \<notin> fst ` set m" "''x-b3-parentspanid'' \<notin> fst ` set m"
    "''x-b3-spanid'' \<notin> fst ` set m" "''x-b3-sampled'' \<notin> fst ` set m"
    using b3key_not_in_carrier[OF assms(2)] by (simp_all add: b3keys_def)
  show ?thesis
    using assms(1) k
    by (simp add: Inject_def TextMapCarrier_def TextMapCarrier_Set_def SpanContext_TraceID_def
        SpanContext_ParentID_def SpanContext_SpanID_def update_new_key injected_def image_Un)
qed

lemma lowerKey_injected: "map (lowerKey ul) (injected sc b) = injected sc b"
  by (simp add: injected_def lowerKey_def ToLower_def isASCII_def toLowerByte_def)

lemma injected_keys: "kv \<in> set (injected sc b) \<Longrightarrow> fst kv \<in> set b3keys"
  by (auto simp: injected_def b3keys_def split: if_splits)

lemma isSampled_new:
  "isSampled (if b then setSampled \<lparr>atomic_flags = 0\<rparr> else \<lparr>atomic_flags = 0\<rparr>) = b"
  by (simp add: isSampled_def setSampled_def setFlag_eq Load_def flagSampled_def)

lemma Extract_injected:
  assumes nokeys: "\<forall>kv \<in> set m. ToLower ul (fst kv) \<notin> set b3keys"
    and valid: "TraceID_IsValid (traceID sc)"
    and perm: "mset (map (lowerKey ul) kvs) = mset (map (lowerKey ul) (m @ injected sc b))"
  shows "Extract ul h' (TextMapCarrier kvs) =
           ((\<lparr>traceID = traceID sc, spanID = spanID sc, parentID = parentID sc, baggage = None,
              debugID = [], samplingState = Some (length (samplingStates h'))\<rparr>, None),
            h'\<lparr>samplingStates := samplingStates h' @
                 [if b then setSampled \<lparr>atomic_flags = 0\<rparr> else \<lparr>atomic_flags = 0\<rparr>]\<rparr>)"
proof -
  let ?ts = "TraceID_String (traceID sc)"
  let ?ss = "FormatUint16 (unat (spanID sc))"
  let ?ps = "FormatUint16 (unat (parentID sc))"
  have S: "lowerKey ul ` set kvs = lowerKey ul ` set m \<union> set (injected sc b)"
  proof -
    have "set (map (lowerKey ul) kvs) = set (map (lowerKey ul) (m @ injected sc b))"
      using perm by (rule mset_eq_setD)
    then show ?thesis using lowerKey_injected[of ul sc b]
      by (simp only: set_map map_append set_append) 
  qed
  have m_other: "\<And>k v. (k, v) \<in> lowerKey ul ` set m \<Longrightarrow> k \<notin> set b3keys"
    using nokeys by (auto simp: lowerKey_def)
  have mem: "\<And>k v. (\<exists>k'. (k', v) \<in> set kvs \<and> ToLower ul k' = k) \<longleftrightarrow> (k, v) \<in> lowerKey ul ` set kvs"
    by (force simp: lowerKey_def image_iff)
  have inj_mem: "\<And>k v. k \<in> set b3keys \<Longrightarrow>
      (k, v) \<in> lowerKey ul ` set kvs \<longleftrightarrow> (k, v) \<in> set (injected sc b)"
    using S m_other by auto
  have pt: "TraceIDFromString ?ts = (traceID sc, None)" by (rule TraceIDFromString_String)
  have pss: "ParseUint ?ss 16 64 = (unat (spanID sc), None)"
    by (simp add: FormatUint16_fmt_x ParseUint_fmt_x[OF unat_lt_64])
  have pps: "ParseUint ?ps 16 64 = (unat (parentID sc), None)"
    by (simp add: FormatUint16_fmt_x ParseUint_fmt_x[OF unat_lt_64])
  have good: "\<forall>(k, v) \<in> set kvs.
                 (ToLower ul k = ''x-b3-traceid'' \<longrightarrow> v = ?ts) \<and>
                 (ToLower ul k = ''x-b3-spanid'' \<longrightarrow> v = ?ss) \<and>
                 (ToLower ul k = ''x-b3-parentspanid'' \<longrightarrow> v = ?ps)"
  proof (clarify, intro conjI impI)
    fix k v
    assume kv: "(k, v) \<in> set kvs"
    then have l: "(ToLower ul k, v) \<in> lowerKey ul ` set kvs" by (force simp: lowerKey_def)
    {
      assume "ToLower ul k = ''x-b3-traceid''"
      then have "(''x-b3-traceid'', v) \<in> set (injected sc b)"
        using l inj_mem[of "''x-b3-traceid''" v] by (simp add: b3keys_def)
      then show "v = ?ts" by (auto simp: injected_def split: if_splits)
    }
    {
      assume "ToLower ul k = ''x-b3-spanid''"
      then have "(''x-b3-spanid'', v) \<in> set (injected sc b)"
        using l inj_mem[of "''x-b3-spanid''" v] by (simp add: b3keys_def)
      then show "v = ?ss" by (auto simp: injected_def split: if_splits)
    }
    {
      assume "ToLower ul k = ''x-b3-parentspanid''"
      then have "(''x-b3-parentspanid'', v) \<in> set (injected sc b)"
        using l inj_mem[of "''x-b3-parentspanid''" v] by (simp add: b3keys_def)
      then show "v = ?ps" by (auto simp: injected_def split: if_splits)
    }
  qed
  have key_mem: "\<And>k. k \<in> set b3keys \<Longrightarrow>
      k \<in> ToLower ul ` fst ` set kvs \<longleftrightarrow> k \<in> fst ` set (injected sc b)"
  proof -
    fix k assume k: "k \<in> set b3keys"
    have "k \<in> ToLower ul ` fst ` set kvs \<longleftrightarrow> (\<exists>v. (k, v) \<in> lowerKey ul ` set kvs)"
      by (force simp: lowerKey_def image_iff)
    also have "\<dots> \<longleftrightarrow> (\<exists>v. (k, v) \<in> set (injected sc b))" using inj_mem[OF k] by simp
    also have "\<dots> \<longleftrightarrow> k \<in> fst ` set (injected sc b)" by force
    finally show "k \<in> ToLower ul ` fst ` set kvs \<longleftrightarrow> k \<in> fst ` set (injected sc b)" .
  qed
  have kt: "''x-b3-traceid'' \<in> ToLower ul ` fst ` set kvs"
    using key_mem[of "''x-b3-traceid''"] by (simp add: b3keys_def injected_def)
  have ks: "''x-b3-spanid'' \<in> ToLower ul ` fst ` set kvs"
    using key_mem[of "''x-b3-spanid''"] by (simp add: b3keys_def injected_def)
  have "''x-b3-parentspanid'' \<in> fst ` set (injected sc b) \<longleftrightarrow> parentID sc \<noteq> 0"
    by (cases "parentID sc = 0") (simp_all add: injected_def)
  then have kp: "''x-b3-parentspanid'' \<in> ToLower ul ` fst ` set kvs \<longleftrightarrow> parentID sc \<noteq> 0"
    using key_mem[of "''x-b3-parentspanid''"] by (simp add: b3keys_def)
  have smp: "(\<exists>(k, v) \<in> set kvs. ToLower ul k = ''x-b3-sampled'' \<and> (v = ''1'' \<or> v = ''true'')) \<longleftrightarrow> b"
  proof -
    have "(\<exists>(k, v) \<in> set kvs. ToLower ul k = ''x-b3-sampled'' \<and> (v = ''1'' \<or> v = ''true'')) \<longleftrightarrow>
        ((''x-b3-sampled'', ''1'') \<in> lowerKey ul ` set kvs \<or>
         (''x-b3-sampled'', ''true'') \<in> lowerKey ul ` set kvs)"
      by (force simp: lowerKey_def image_iff)
    also have "\<dots> \<longleftrightarrow> ((''x-b3-sampled'', ''1'') \<in> set (injected sc b) \<or>
         (''x-b3-sampled'', ''true'') \<in> set (injected sc b))"
      using inj_mem[of "''x-b3-sampled''"] by (simp add: b3keys_def)
    also have "\<dots> \<longleftrightarrow> b" by (simp add: injected_def)
    finally show ?thesis .
  qed
  have fold: "ForeachKey (b3handler ul) kvs b3init =
     (\<lparr>var_traceID = traceID sc, var_spanID = spanID sc, var_parentID = parentID sc,
       var_sampled = b\<rparr>, None)"
    unfolding ForeachKey_b3_good[OF pt pss pps good, of b3init]
    using kt ks kp smp by (auto simp: b3init_def)
  show ?thesis
    using valid by (simp add: Extract_def TextMapCarrier_def fold NewSpanContext_def)
qed

lemma TextMapCarrier_inject: "TextMapCarrier m = TextMapCarrier m' \<longleftrightarrow> m = m'"
  by (simp add: TextMapCarrier_def)

text \<open>
  Claim C3, as amended. Let \<open>sc\<close> be a span context with a valid trace id and a sampling
  state, and let the text-map carrier hold no B3 header before the injection (none of its
  keys is, in lower case, one of the four header names; the empty carrier is the main
  case). Then \<open>Inject\<close> succeeds, and \<open>Extract\<close> applied to the resulting headers, visited
  in any order and with their names in any mix of upper and lower case, returns without
  error a context with the trace id, span id, parent id and sampled flag of \<open>sc\<close>, and no
  baggage. The span id may be zero. Moreover, \<open>Extract\<close> depends on the header names only
  through their lower-case form, and whenever it succeeds the context is sampled exactly
  when some header named \<open>x-b3-sampled\<close>, in any case, has the value \<open>1\<close> or \<open>true\<close>.
\<close>

theorem B3_inject_extract:
  "(IsSampled h sc = Some b \<and> TraceID_IsValid (traceID sc) \<and>
    (\<forall>kv \<in> set m. ToLower ul (fst kv) \<notin> set b3keys) \<longrightarrow>
      (\<exists>m'. Inject h sc (TextMapCarrier m) = Some (None, TextMapCarrier m') \<and>
         (\<forall>kvs h'. mset (map (lowerKey ul) kvs) = mset (map (lowerKey ul) m') \<longrightarrow>
            (\<exists>c h2. Extract ul h' (TextMapCarrier kvs) = ((c, None), h2) \<and>
                    traceID c = traceID sc \<and> spanID c = spanID sc \<and>
                    parentID c = parentID sc \<and> IsSampled h2 c = Some b \<and>
                    baggage c = None)))) \<and>
   (map (lowerKey ul) kvs1 = map (lowerKey ul) kvs2 \<longrightarrow>
      Extract ul h1 (TextMapCarrier kvs1) = Extract ul h1 (TextMapCarrier kvs2)) \<and>
   (Extract ul h1 (TextMapCarrier kvs1) = ((c1, None), h2) \<longrightarrow>
      IsSampled h2 c1 =
        Some (\<exists>(k, v) \<in> set kvs1. ToLower ul k = ''x-b3-sampled'' \<and> (v = ''1'' \<or> v = ''true'')))"
proof (intro conjI impI)
  assume a: "IsSampled h sc = Some b \<and> TraceID_IsValid (traceID sc) \<and>
    (\<forall>kv \<in> set m. ToLower ul (fst kv) \<notin> set b3keys)"
  then have inj: "Inject h sc (TextMapCarrier m) = Some (None, TextMapCarrier (m @ injected sc b))"
    by (intro Inject_TextMap[where ul = ul]) simp_all
  have "\<forall>kvs h'. mset (map (lowerKey ul) kvs) = mset (map (lowerKey ul) (m @ injected sc b)) \<longrightarrow>
            (\<exists>c h2. Extract ul h' (TextMapCarrier kvs) = ((c, None), h2) \<and>
                    traceID c = traceID sc \<and> spanID c = spanID sc \<and>
                    parentID c = parentID sc \<and> IsSampled h2 c = Some b \<and>
                    baggage c = None)"
  proof (intro allI impI)
    fix kvs h'
    assume p: "mset (map (lowerKey ul) kvs) = mset (map (lowerKey ul) (m @ injected sc b))"
    have e: "Extract ul h' (TextMapCarrier kvs) =
           ((\<lparr>traceID = traceID sc, spanID = spanID sc, parentID = parentID sc, baggage = None,
              debugID = [], samplingState = Some (length (samplingStates h'))\<rparr>, None),
            h'\<lparr>samplingStates := samplingStates h' @
                 [if b then setSampled \<lparr>atomic_flags = 0\<rparr> else \<lparr>atomic_flags = 0\<rparr>]\<rparr>)"
      using a p by (intro Extract_injected) simp_all
    show "\<exists>c h2. Extract ul h' (TextMapCarrier kvs) = ((c, None), h2) \<and>
                    traceID c = traceID sc \<and> spanID c = spanID sc \<and>
                    parentID c = parentID sc \<and> IsSampled h2 c = Some b \<and>
                    baggage c = None"
      unfolding e using isSampled_new[of b]
      by (simp add: IsSampled_def derefState_def)
  qed
  with inj show "\<exists>m'. Inject h sc (TextMapCarrier m) = Some (None, TextMapCarrier m') \<and>
         (\<forall>kvs h'. mset (map (lowerKey ul) kvs) = mset (map (lowerKey ul) m') \<longrightarrow>
            (\<exists>c h2. Extract ul h' (TextMapCarrier kvs) = ((c, None), h2) \<and>
                    traceID c = traceID sc \<and> spanID c = spanID sc \<and>
                    parentID c = parentID sc \<and> IsSampled h2 c = Some b \<and>
                    baggage c = None))"
    by blast
next
  assume "map (lowerKey ul) kvs1 = map (lowerKey ul) kvs2"
  then have "ForeachKey (b3handler ul) kvs1 b3init = ForeachKey (b3handler ul) kvs2 b3init"
    by (rule ForeachKey_b3_lower)
  then show "Extract ul h1 (TextMapCarrier kvs1) = Extract ul h1 (TextMapCarrier kvs2)"
    by (simp add: Extract_def TextMapCarrier_def)
next
  assume a: "Extract ul h1 (TextMapCarrier kvs1) = ((c1, None), h2)"
  obtain vs e where f: "ForeachKey (b3handler ul) kvs1 b3init = (vs, e)"
    by (cases "ForeachKey (b3handler ul) kvs1 b3init")
  have e: "e = None" using a f by (cases e) (simp_all add: Extract_def TextMapCarrier_def)
  have v: "TraceID_IsValid (var_traceID vs)"
    using a f e
    by (cases "TraceID_IsValid (var_traceID vs)") (simp_all add: Extract_def TextMapCarrier_def)
  have s: "var_sampled vs =
      (\<exists>(k, v) \<in> set kvs1. ToLower ul k = ''x-b3-sampled'' \<and> (v = ''1'' \<or> v = ''true''))"
    using ForeachKey_b3_sampled[of ul kvs1 b3init vs] f e by (simp add: b3init_def)
  have "Extract ul h1 (TextMapCarrier kvs1) =
      ((\<lparr>traceID = var_traceID vs, spanID = var_spanID vs, parentID = var_parentID vs,
         baggage = None, debugID = [], samplingState = Some (length (samplingStates h1))\<rparr>, None),
       h1\<lparr>samplingStates := samplingStates h1 @
            [if var_sampled vs then setSampled \<lparr>atomic_flags = 0\<rparr> else \<lparr>atomic_flags = 0\<rparr>]\<rparr>)"
    using f e v by (simp add: Extract_def TextMapCarrier_def NewSpanContext_def)
  then have "IsSampled h2 c1 = Some (var_sampled vs)"
    using a isSampled_new[of "var_sampled vs"] by (auto simp: IsSampled_def derefState_def)
  then show "IsSampled h2 c1 =
        Some (\<exists>(k, v) \<in> set kvs1. ToLower ul k = ''x-b3-sampled'' \<and> (v = ''1'' \<or> v = ''true''))"
    using s by simp
qed

text \<open>
  The context \<open>{High: 1, Low: 2}\<close>, span 3, parent 4, sampled, injected next to an unrelated
  header and extracted from the headers in another order and in the capitalisation of HTTP;
  and two headers read alike in either capitalisation, sampled by the value \<open>true\<close>.
\<close>

theorem B3_inject_extract_witness:
  "Inject \<lparr>samplingStates = [\<lparr>atomic_flags = 1\<rparr>], baggageMaps = []\<rparr>
     \<lparr>traceID = \<lparr>High = 1, Low = 2\<rparr>, spanID = 3, parentID = 4, baggage = None, debugID = [],
      samplingState = Some 0\<rparr>
     (TextMapCarrier [(''Content-Type'', ''text/plain'')]) =
     Some (None, TextMapCarrier
       [(''Content-Type'', ''text/plain''), (''x-b3-traceid'', ''10000000000000002''),
        (''x-b3-parentspanid'', ''4''), (''x-b3-spanid'', ''3''), (''x-b3-sampled'', ''1'')]) \<and>
   (\<exists>c h2.
      Extract (\<lambda>s. s) \<lparr>samplingStates = [], baggageMaps = []\<rparr>
        (TextMapCarrier
          [(''X-B3-Sampled'', ''1''), (''content-type'', ''text/plain''), (''X-B3-SpanId'', ''3''),
           (''X-B3-ParentSpanId'', ''4''), (''X-B3-TraceId'', ''10000000000000002'')]) =
        ((c, None), h2) \<and>
      traceID c = \<lparr>High = 1, Low = 2\<rparr> \<and> spanID c = 3 \<and> parentID c = 4 \<and>
      IsSampled h2 c = Some True \<and> baggage c = None) \<and>
   Extract (\<lambda>s. s) \<lparr>samplingStates = [], baggageMaps = []\<rparr>
     (TextMapCarrier [(''X-B3-TraceId'', ''a''), (''X-B3-Sampled'', ''true'')]) =
   Extract (\<lambda>s. s) \<lparr>samplingStates = [], baggageMaps = []\<rparr>
     (TextMapCarrier [(''x-b3-traceid'', ''a''), (''x-b3-sampled'', ''true'')]) \<and>
   Extract (\<lambda>s. s) \<lparr>samplingStates = [], baggageMaps = []\<rparr>
     (TextMapCarrier [(''X-B3-TraceId'', ''a''), (''X-B3-Sampled'', ''true'')]) =
     ((\<lparr>traceID = \<lparr>High = 0, Low = 10\<rparr>, spanID = 0, parentID = 0, baggage = None,
        debugID = [], samplingState = Some 0\<rparr>, None),
      \<lparr>samplingStates = [\<lparr>atomic_flags = 1\<rparr>], baggageMaps = []\<rparr>) \<and>
   IsSampled \<lparr>samplingStates = [\<lparr>atomic_flags = 1\<rparr>], baggageMaps = []\<rparr>
     \<lparr>traceID = \<lparr>High = 0, Low = 10\<rparr>, spanID = 0, parentID = 0, baggage = None,
      debugID = [], samplingState = Some 0\<rparr> = Some True"
proof -
  let ?ul = "\<lambda>s::string. s"
  let ?h = "\<lparr>samplingStates = [\<lparr>atomic_flags = 1\<rparr>], baggageMaps = []\<rparr>"
  let ?he = "\<lparr>samplingStates = [], baggageMaps = []\<rparr>"
  let ?sc = "\<lparr>traceID = \<lparr>High = 1, Low = 2\<rparr>, spanID = 3, parentID = 4, baggage = None,
              debugID = [], samplingState = Some 0\<rparr>"
  let ?m = "[(''Content-Type'', ''text/plain'')]"
  let ?m1 = "[(''Content-Type'', ''text/plain''), (''x-b3-traceid'', ''10000000000000002''),
        (''x-b3-parentspanid'', ''4''), (''x-b3-spanid'', ''3''), (''x-b3-sampled'', ''1'')]"
  let ?kvs = "[(''X-B3-Sampled'', ''1''), (''content-type'', ''text/plain''), (''X-B3-SpanId'', ''3''),
           (''X-B3-ParentSpanId'', ''4''), (''X-B3-TraceId'', ''10000000000000002'')]"
  let ?ku = "[(''X-B3-TraceId'', ''a''), (''X-B3-Sampled'', ''true'')]"
  let ?kl = "[(''x-b3-traceid'', ''a''), (''x-b3-sampled'', ''true'')]"
  let ?c = "\<lparr>traceID = \<lparr>High = 0, Low = 10\<rparr>, spanID = 0, parentID = 0, baggage = None,
      debugID = [], samplingState = Some 0\<rparr>"
  have ts: "TraceID_String \<lparr>High = 1, Low = 2\<rparr> = ''10000000000000002''" by code_simp
  have smp: "IsSampled ?h ?sc = Some True"
    by (simp add: IsSampled_def derefState_def isSampled_def Load_def flagSampled_def)
  have val: "TraceID_IsValid (traceID ?sc)" by (simp add: TraceID_IsValid_def)
  have nk: "\<forall>kv \<in> set ?m. ToLower ?ul (fst kv) \<notin> set b3keys"
    by (simp add: ToLower_def isASCII_def toLowerByte_def b3keys_def)
  have inj: "Inject ?h ?sc (TextMapCarrier ?m) = Some (None, TextMapCarrier ?m1)"
    using smp
    by (simp add: Inject_def TextMapCarrier_def TextMapCarrier_Set_def SpanContext_TraceID_def ts
        SpanContext_ParentID_def SpanContext_SpanID_def FormatUint16_def formatBits.simps
        digits_def)
  have low: "map (lowerKey ?ul) ?kvs =
      [(''x-b3-sampled'', ''1''), (''content-type'', ''text/plain''), (''x-b3-spanid'', ''3''),
       (''x-b3-parentspanid'', ''4''), (''x-b3-traceid'', ''10000000000000002'')]"
    by (simp add: lowerKey_def ToLower_def isASCII_def toLowerByte_def char_of_eq_iff
        take_bit_eq_mod)
  have low1: "map (lowerKey ?ul) ?m1 =
      [(''content-type'', ''text/plain''), (''x-b3-traceid'', ''10000000000000002''),
        (''x-b3-parentspanid'', ''4''), (''x-b3-spanid'', ''3''), (''x-b3-sampled'', ''1'')]"
    by (simp add: lowerKey_def ToLower_def isASCII_def toLowerByte_def char_of_eq_iff
        take_bit_eq_mod)
  have perm: "mset (map (lowerKey ?ul) ?kvs) = mset (map (lowerKey ?ul) ?m1)"
    unfolding low low1 by (simp add: add_mset_commute)
  note th = B3_inject_extract[where h = ?h and sc = ?sc and b = True and ul = ?ul and m = ?m
      and ?kvs1.0 = ?ku and ?kvs2.0 = ?kl and ?h1.0 = ?he and ?c1.0 = ?c and ?h2.0 = ?h]
  from th smp val nk
  obtain m' where m': "Inject ?h ?sc (TextMapCarrier ?m) = Some (None, TextMapCarrier m')"
    and ex: "\<And>kvs h'. mset (map (lowerKey ?ul) kvs) = mset (map (lowerKey ?ul) m') \<Longrightarrow>
            (\<exists>c h2. Extract ?ul h' (TextMapCarrier kvs) = ((c, None), h2) \<and>
                    traceID c = traceID ?sc \<and> spanID c = spanID ?sc \<and>
                    parentID c = parentID ?sc \<and> IsSampled h2 c = Some True \<and>
                    baggage c = None)"
    by blast
  have "m' = ?m1" using m' inj by (simp add: TextMapCarrier_inject)
  then have rt: "\<exists>c h2. Extract ?ul ?he (TextMapCarrier ?kvs) = ((c, None), h2) \<and>
                    traceID c = \<lparr>High = 1, Low = 2\<rparr> \<and> spanID c = 3 \<and>
                    parentID c = 4 \<and> IsSampled h2 c = Some True \<and>
                    baggage c = None"
    using ex[of ?kvs ?he] perm by simp
  have lk: "map (lowerKey ?ul) ?ku = map (lowerKey ?ul) ?kl"
    by (simp add: lowerKey_def ToLower_def isASCII_def toLowerByte_def char_of_eq_iff
        take_bit_eq_mod)
  have ci: "Extract ?ul ?he (TextMapCarrier ?ku) = Extract ?ul ?he (TextMapCarrier ?kl)"
    using th lk by blast
  have el: "Extract ?ul ?he (TextMapCarrier ?kl) = ((?c, None), ?h)"
    by (simp add: Extract_def TextMapCarrier_def b3handler_def b3init_def ToLower_def isASCII_def
        toLowerByte_def TraceIDFromString_def ParseUint_def digitVal_def cutoff_def
        TraceID_IsValid_def NewSpanContext_def setSampled_def setFlag_eq flagSampled_def)
  then have eu: "Extract ?ul ?he (TextMapCarrier ?ku) = ((?c, None), ?h)" using ci by simp
  have "IsSampled ?h ?c =
      Some (\<exists>(k, v) \<in> set ?ku. ToLower ?ul k = ''x-b3-sampled'' \<and> (v = ''1'' \<or> v = ''true''))"
    using th eu by blast
  moreover have "\<exists>(k, v) \<in> set ?ku. ToLower ?ul k = ''x-b3-sampled'' \<and> (v = ''1'' \<or> v = ''true'')"
    by (simp add: ToLower_def isASCII_def toLowerByte_def char_of_eq_iff take_bit_eq_mod)
  ultimately have st: "IsSampled ?h ?c = Some True" by simp
  from inj rt ci eu st show ?thesis by blast
qed

text \<open>
  Claim C3, as stated, fails for a carrier that already holds a B3 header. The context has
  a valid trace id, the span id 2, no parent (parent id zero) and no baggage; the carrier
  holds \<open>x-b3-parentspanid: 9\<close>, left by an earlier injection. \<open>Inject\<close> writes no parent
  header for a parent id of zero, so the old one stays, and \<open>Extract\<close> returns a context
  with the parent id 9.
\<close>

theorem B3_stale_parent_header:
  "TraceID_IsValid (traceID \<lparr>traceID = \<lparr>High = 0, Low = 1\<rparr>, spanID = 2, parentID = 0,
      baggage = None, debugID = [], samplingState = Some 0\<rparr>) \<and>
   Inject \<lparr>samplingStates = [\<lparr>atomic_flags = 1\<rparr>], baggageMaps = []\<rparr>
     \<lparr>traceID = \<lparr>High = 0, Low = 1\<rparr>, spanID = 2, parentID = 0, baggage = None, debugID = [],
      samplingState = Some 0\<rparr>
     (TextMapCarrier [(''x-b3-parentspanid'', ''9'')]) =
     Some (None, TextMapCarrier
       [(''x-b3-parentspanid'', ''9''), (''x-b3-traceid'', ''1''), (''x-b3-spanid'', ''2''),
        (''x-b3-sampled'', ''1'')]) \<and>
   Extract (\<lambda>s. s) \<lparr>samplingStates = [\<lparr>atomic_flags = 1\<rparr>], baggageMaps = []\<rparr>
     (TextMapCarrier
       [(''x-b3-parentspanid'', ''9''), (''x-b3-traceid'', ''1''), (''x-b3-spanid'', ''2''),
        (''x-b3-sampled'', ''1'')]) =
     ((\<lparr>traceID = \<lparr>High = 0, Low = 1\<rparr>, spanID = 2, parentID = 9, baggage = None,
        debugID = [], samplingState = Some 1\<rparr>, None),
      \<lparr>samplingStates = [\<lparr>atomic_flags = 1\<rparr>, \<lparr>atomic_flags = 1\<rparr>], baggageMaps = []\<rparr>) \<and>
   parentID (fst (fst (Extract (\<lambda>s. s) \<lparr>samplingStates = [\<lparr>atomic_flags = 1\<rparr>], baggageMaps = []\<rparr>
     (TextMapCarrier
       [(''x-b3-parentspanid'', ''9''), (''x-b3-traceid'', ''1''), (''x-b3-spanid'', ''2''),
        (''x-b3-sampled'', ''1'')])))) \<noteq>
   parentID \<lparr>traceID = \<lparr>High = 0, Low = 1\<rparr>, spanID = 2, parentID = 0,
      baggage = None, debugID = [], samplingState = Some 0\<rparr>"
proof -
  let ?h = "\<lparr>samplingStates = [\<lparr>atomic_flags = 1\<rparr>], baggageMaps = []\<rparr>"
  let ?sc = "\<lparr>traceID = \<lparr>High = 0, Low = 1\<rparr>, spanID = 2, parentID = 0, baggage = None,
              debugID = [], samplingState = Some 0\<rparr>"
  let ?m1 = "[(''x-b3-parentspanid'', ''9''), (''x-b3-traceid'', ''1''), (''x-b3-spanid'', ''2''),
        (''x-b3-sampled'', ''1'')]"
  have val: "TraceID_IsValid (traceID ?sc)" by (simp add: TraceID_IsValid_def)
  have ts: "TraceID_String \<lparr>High = 0, Low = 1\<rparr> = ''1''"
    by (simp add: TraceID_String_def fmt_x_def formatBits.simps digits_def)
  have smp: "IsSampled ?h ?sc = Some True"
    by (simp add: IsSampled_def derefState_def isSampled_def Load_def flagSampled_def)
  have inj: "Inject ?h ?sc (TextMapCarrier [(''x-b3-parentspanid'', ''9'')]) =
      Some (None, TextMapCarrier ?m1)"
    using smp
    by (simp add: Inject_def TextMapCarrier_def TextMapCarrier_Set_def SpanContext_TraceID_def ts
        SpanContext_ParentID_def SpanContext_SpanID_def FormatUint16_def formatBits.simps
        digits_def)
  have ext: "Extract (\<lambda>s. s) ?h (TextMapCarrier ?m1) =
     ((\<lparr>traceID = \<lparr>High = 0, Low = 1\<rparr>, spanID = 2, parentID = 9, baggage = None,
        debugID = [], samplingState = Some 1\<rparr>, None),
      \<lparr>samplingStates = [\<lparr>atomic_flags = 1\<rparr>, \<lparr>atomic_flags = 1\<rparr>], baggageMaps = []\<rparr>)"
    by (simp add: Extract_def TextMapCarrier_def b3handler_def b3init_def ToLower_def isASCII_def
        toLowerByte_def TraceIDFromString_def ParseUint_def digitVal_def cutoff_def
        TraceID_IsValid_def NewSpanContext_def setSampled_def setFlag_eq flagSampled_def)
  show ?thesis unfolding ext using val inj by simp
qed

end
